theory Spec2Isabelle
  imports Main "HOL-Library.Word" "HOL-Library.Monad_Syntax"
begin

unbundle bit_operations_syntax

section \<open>The DNS decoder of dns.c\<close>

text \<open>
  The message is the list of the bytes handed to \<^verbatim>\<open>dns_print_packet\<close>. A pointer into
  the message is its offset from \<^verbatim>\<open>hdr\<close> (the first byte), an \<open>int\<close>, since the code
  moves pointers with no check of its own; \<^verbatim>\<open>ssize_t\<close> lengths are \<open>int\<close> as well.
  A load outside the message and a store outside an array are undefined behaviour in C:
  the model returns \<open>None\<close> there, so every function that touches memory has an
  \<open>option\<close> result and \<open>None\<close> is never an error code of the program.
\<close>

type_synonym byte = "8 word"

definition rd :: "byte list \<Rightarrow> int \<Rightarrow> byte option" where
  "rd msg p = (if 0 \<le> p \<and> p < int (length msg) then Some (msg ! nat p) else None)"

definition wr :: "byte list \<Rightarrow> nat \<Rightarrow> byte \<Rightarrow> byte list option" where
  "wr buf i v = (if i < length buf then Some (buf[i := v]) else None)"

text \<open>\<^verbatim>\<open>ntohs(*p)\<close> and \<^verbatim>\<open>ntohl(*p)\<close>: the big-endian value of the bytes at \<open>p\<close>.\<close>

definition ntohs_at :: "byte list \<Rightarrow> int \<Rightarrow> 16 word option" where
  "ntohs_at msg p =
     do { hi \<leftarrow> rd msg p;
          lo \<leftarrow> rd msg (p + 1);
          Some (push_bit 8 (ucast hi) OR ucast lo) }"

definition ntohl_at :: "byte list \<Rightarrow> int \<Rightarrow> 32 word option" where
  "ntohl_at msg p =
     do { hi \<leftarrow> ntohs_at msg p;
          lo \<leftarrow> ntohs_at msg (p + 2);
          Some (push_bit 16 (ucast hi) OR ucast lo) }"

text \<open>
  \<^verbatim>\<open>char\<close> is signed where the program is built (x86-64 Linux): a comparison such as
  \<^verbatim>\<open>*c < 64\<close> reads the byte as a two's complement value.
\<close>

definition char_val :: "byte \<Rightarrow> int" where
  "char_val b = sint b"

datatype dns_err =
    dns_ok
  | dns_err
  | dns_err_label_too_long
  | dns_err_offset_too_long
  | dns_err_malformed
  | dns_err_label_malformed
  | dns_err_bad_rdlength
  | dns_err_unprintable
  | dns_err_too_many
  | dns_err_unterminated
  | dns_err_rdata_too_long

definition char_is_label :: "byte \<Rightarrow> bool" where
  "char_is_label c = (c AND 0xC0 = 0)"

definition char_is_offset :: "byte \<Rightarrow> bool" where
  "char_is_offset c = (c AND 0xC0 = 0xC0)"

definition DNS_OUTNAME_LEN :: nat where
  "DNS_OUTNAME_LEN = 256"

definition DNS_MAX_RECURSION_DEPTH :: nat where
  "DNS_MAX_RECURSION_DEPTH = 20"

subsection \<open>The cursor\<close>

text \<open>
  Each parser takes the cursor \<^verbatim>\<open>(*data, *len)\<close> and returns the error code with the
  cursor as it leaves it. \<^verbatim>\<open>data_advance\<close> compares in \<^verbatim>\<open>unsigned int\<close>; the others
  compare the signed length.
\<close>

definition data_advance :: "int \<Rightarrow> int \<Rightarrow> 32 word \<Rightarrow> dns_err \<times> int \<times> int" where
  "data_advance data len sz =
     (let tlen = (word_of_int len :: 32 word) in
      if tlen < sz then (dns_err_malformed, data, len)
      else (dns_ok, data + uint sz, len - uint sz))"

text \<open>The pointer \<^verbatim>\<open>*q\<close> that \<^verbatim>\<open>dns_question_parse\<close> sets is never read afterwards.\<close>

definition dns_question_parse :: "int \<Rightarrow> int \<Rightarrow> dns_err \<times> int \<times> int" where
  "dns_question_parse data len =
     (if len < 4 then (dns_err_malformed, data, len)
      else (dns_ok, data + 4, len - 4))"

text \<open>
  \<^verbatim>\<open>struct dns_rr\<close> is packed: type at 0, rclass at 2, ttl at 4, rdlength at 8, ten bytes.
  \<^verbatim>\<open>dns_rr_parse\<close> returns the error, \<^verbatim>\<open>*r\<close>, the cursor and \<^verbatim>\<open>*rdlength\<close>; the first
  and the last keep the caller's values on an error.
\<close>

definition dns_rr_parse ::
  "byte list \<Rightarrow> int \<Rightarrow> int \<Rightarrow> int \<Rightarrow> int \<Rightarrow> (dns_err \<times> int \<times> int \<times> int \<times> int) option" where
  "dns_rr_parse msg r data len rdlength =
     (if len < 10 then Some (dns_err_malformed, r, data, len, rdlength)
      else do { rdl \<leftarrow> ntohs_at msg (data + 8);
                if len < uint rdl then Some (dns_err_rdata_too_long, data, data, len, rdlength)
                else Some (dns_ok, data, data + 10, len - 10, uint rdl) })"

definition dns_addr_parse :: "int \<Rightarrow> int \<Rightarrow> int \<Rightarrow> 16 word \<Rightarrow> dns_err \<times> int \<times> int \<times> int" where
  "dns_addr_parse a data len rdlength =
     (if len < 4 then (dns_err_malformed, a, data, len)
      else if rdlength \<noteq> 4 then (dns_err_bad_rdlength, a, data, len)
      else (dns_ok, data, data + 4, len - 4))"

definition dns_ipv6_addr_parse :: "int \<Rightarrow> int \<Rightarrow> int \<Rightarrow> 16 word \<Rightarrow> dns_err \<times> int \<times> int \<times> int" where
  "dns_ipv6_addr_parse a data len rdlength =
     (if len < 16 then (dns_err_malformed, a, data, len)
      else if rdlength \<noteq> 16 then (dns_err_bad_rdlength, a, data, len)
      else (dns_ok, data, data + 16, len - 16))"

definition uint16_parse :: "int \<Rightarrow> int \<Rightarrow> int \<Rightarrow> dns_err \<times> int \<times> int \<times> int" where
  "uint16_parse x data len =
     (if len < 2 then (dns_err_malformed, x, data, len)
      else (dns_ok, data, data + 2, len - 2))"

text \<open>\<^verbatim>\<open>isprint\<close> in the C locale holds of 0x20 to 0x7E; \<open>0x2A\<close> is the star.\<close>

definition printable :: "byte \<Rightarrow> byte" where
  "printable c = (if 0x20 \<le> c \<and> c \<le> 0x7E then c else 0x2A)"

subsection \<open>The name decoder\<close>

text \<open>
  What a decoder leaves behind: its return value, the caller's \<^verbatim>\<open>*name\<close> and \<^verbatim>\<open>*len\<close>,
  the output array, and the final value of its local \<^verbatim>\<open>outname\<close> as an index into that
  array (the number of bytes appended when the outermost call started at index 0).
\<close>

record name_res =
  n_err :: dns_err
  n_name :: int
  n_len :: int
  n_buf :: "byte list"
  n_outname :: nat

text \<open>The copy loop \<^verbatim>\<open>for (i=1; i<jump; i++) *outname++ = printable(c[i])\<close>.\<close>

function copy_label ::
  "byte list \<Rightarrow> int \<Rightarrow> nat \<Rightarrow> nat \<Rightarrow> byte list \<Rightarrow> nat \<Rightarrow> (byte list \<times> nat) option" where
  "copy_label msg c i jump buf outname =
     (if i < jump then
        do { b \<leftarrow> rd msg (c + int i);
             buf' \<leftarrow> wr buf outname (printable b);
             copy_label msg c (i + 1) jump buf' (outname + 1) }
      else Some (buf, outname))"
  by pat_completeness auto
termination
  by (relation "measure (\<lambda>(msg, c, i, jump, buf, outname). jump - i)") auto

declare copy_label.simps [simp del]

lemma copy_label_outname:
  "copy_label msg c i jump buf outname = Some (buf', outname') \<Longrightarrow> outname \<le> outname'"
proof (induction msg c i jump buf outname rule: copy_label.induct)
  case (1 msg c i jump buf outname)
  show ?case
  proof (cases "i < jump")
    case True
    with "1.prems" obtain b buf1 where
      b: "rd msg (c + int i) = Some b" and
      w: "wr buf outname (printable b) = Some buf1" and
      r: "copy_label msg c (i + 1) jump buf1 (outname + 1) = Some (buf', outname')"
      by (subst (asm) copy_label.simps) (auto simp: bind_eq_Some_conv)
    from "1.IH" [OF True b w r] show ?thesis by simp
  next
    case False
    with "1.prems" show ?thesis by (subst (asm) copy_label.simps) simp
  qed
qed

text \<open>
  \<^verbatim>\<open>dns_header_parse_name\<close> is the entry of a call (the robustness check and the store
  \<^verbatim>\<open>outname[1] = 0\<close>); \<open>name_loop\<close> is its \<^verbatim>\<open>while\<close> loop, with the locals \<open>c\<close>,
  \<open>terminus\<close> and \<open>offsetlen\<close> as arguments. After a jump the caller's \<^verbatim>\<open>*name\<close> and
  \<^verbatim>\<open>*len\<close> are the ones \<^verbatim>\<open>uint16_parse\<close> left: the callee moves its own copies.
\<close>

function dns_header_parse_name ::
    "byte list \<Rightarrow> int \<Rightarrow> int \<Rightarrow> byte list \<Rightarrow> nat \<Rightarrow> 32 word \<Rightarrow> nat \<Rightarrow> name_res option"
  and name_loop ::
    "byte list \<Rightarrow> int \<Rightarrow> int \<Rightarrow> int \<Rightarrow> byte list \<Rightarrow> nat \<Rightarrow> 32 word \<Rightarrow> nat \<Rightarrow> int \<Rightarrow> nat
       \<Rightarrow> name_res option"
where
  "dns_header_parse_name msg name len buf outname outname_len recursion_depth =
     (if len \<le> 0 \<or> outname > outname + unat outname_len \<or> outname_len < 2 then
        Some \<lparr>n_err = dns_err_unterminated, n_name = name, n_len = len, n_buf = buf,
              n_outname = outname\<rparr>
      else
        do { buf1 \<leftarrow> wr buf (outname + 1) 0;
             name_loop msg name name len buf1 outname outname_len (outname + unat outname_len)
               (name + len) recursion_depth })"
| "name_loop msg c name len buf outname outname_len terminus offsetlen recursion_depth =
     (if len > 0 \<and> outname < terminus then
        do { ch \<leftarrow> rd msg c;
             if char_is_label ch then
               (if char_val ch < 64 \<and> len > char_val ch then
                  (if char_val ch = 0 then
                     do { buf' \<leftarrow> wr buf outname 0;
                          Some \<lparr>n_err = dns_ok, n_name = c + 1, n_len = len, n_buf = buf',
                                n_outname = outname\<rparr> }
                   else
                     do { buf1 \<leftarrow> wr buf outname 0x2E;
                          (buf2, outname') \<leftarrow> copy_label msg c 1 (unat (ch + 1)) buf1 (outname + 1);
                          name_loop msg (c + uint (ch + 1)) (name + uint (ch + 1))
                            (len - uint (ch + 1)) buf2 outname' (outname_len - ucast (ch + 1))
                            terminus offsetlen recursion_depth })
                else
                  Some \<lparr>n_err = dns_err_label_too_long, n_name = name, n_len = len, n_buf = buf,
                        n_outname = outname\<rparr>)
             else if char_is_offset ch then
               (case uint16_parse 0 name len of (err, offset, name', len') \<Rightarrow>
                  if err \<noteq> dns_ok then
                    Some \<lparr>n_err = dns_err_offset_too_long, n_name = name', n_len = len',
                          n_buf = buf, n_outname = outname\<rparr>
                  else
                    do { v \<leftarrow> ntohs_at msg offset;
                         if recursion_depth \<ge> DNS_MAX_RECURSION_DEPTH then
                           Some \<lparr>n_err = dns_err_offset_too_long, n_name = name', n_len = len',
                                 n_buf = buf, n_outname = outname\<rparr>
                         else
                           do { res \<leftarrow> dns_header_parse_name msg (uint (v AND 0x3FFF))
                                         (offsetlen - uint (v AND 0x3FFF)) buf outname outname_len
                                         (recursion_depth + 1);
                                Some (res\<lparr>n_name := name', n_len := len'\<rparr>) } })
             else
               Some \<lparr>n_err = dns_err_label_malformed, n_name = name, n_len = len, n_buf = buf,
                     n_outname = outname\<rparr> }
      else
        Some \<lparr>n_err = dns_err_unterminated, n_name = name, n_len = len, n_buf = buf,
              n_outname = outname\<rparr>)"
  by pat_completeness auto
termination
proof (relation "measures
    [\<lambda>x. case x of Inl (msg, name, len, buf, outname, outname_len, d) \<Rightarrow> 21 - d
               | Inr (msg, c, name, len, buf, outname, outname_len, terminus, offsetlen, d) \<Rightarrow> 21 - d,
     \<lambda>x. case x of Inl _ \<Rightarrow> 1 | Inr _ \<Rightarrow> 0,
     \<lambda>x. case x of Inl _ \<Rightarrow> 0
               | Inr (msg, c, name, len, buf, outname, outname_len, terminus, offsetlen, d) \<Rightarrow>
                   terminus - outname]", goal_cases)
  case 1
  show ?case by simp
next
  case 2
  then show ?case by simp
next
  case (3 msg c name len buf outname outname_len terminus offsetlen d ch buf1 x buf2 outname')
  from 3 have lt: "outname < terminus" by simp
  from 3(7,8) have "copy_label msg c 1 (unat (ch + 1)) buf1 (outname + 1) = Some (buf2, outname')"
    by simp
  then have "outname + 1 \<le> outname'" by (rule copy_label_outname)
  with lt show ?case by simp
next
  case 4
  then show ?case by (simp add: DNS_MAX_RECURSION_DEPTH_def)
qed

declare dns_header_parse_name.simps [simp del] name_loop.simps [simp del]

text \<open>
  \<^verbatim>\<open>dns_header_parse_mxname\<close> is the same text with the preference skip at the head of
  the label branch. The flag \<^verbatim>\<open>processed_preference\<close> is a local of the call, set to 0 at
  every entry; the skip moves \<open>c\<close> and \<^verbatim>\<open>*len\<close> and leaves \<^verbatim>\<open>*name\<close> where it is.
\<close>

function dns_header_parse_mxname ::
    "byte list \<Rightarrow> int \<Rightarrow> int \<Rightarrow> byte list \<Rightarrow> nat \<Rightarrow> 32 word \<Rightarrow> nat \<Rightarrow> name_res option"
  and mxname_loop ::
    "byte list \<Rightarrow> int \<Rightarrow> int \<Rightarrow> int \<Rightarrow> byte list \<Rightarrow> nat \<Rightarrow> 32 word \<Rightarrow> nat \<Rightarrow> int \<Rightarrow> nat
       \<Rightarrow> bool \<Rightarrow> name_res option"
where
  "dns_header_parse_mxname msg name len buf outname outname_len recursion_depth =
     (if len \<le> 0 \<or> outname > outname + unat outname_len \<or> outname_len < 2 then
        Some \<lparr>n_err = dns_err_unterminated, n_name = name, n_len = len, n_buf = buf,
              n_outname = outname\<rparr>
      else
        do { buf1 \<leftarrow> wr buf (outname + 1) 0;
             mxname_loop msg name name len buf1 outname outname_len (outname + unat outname_len)
               (name + len) recursion_depth False })"
| "mxname_loop msg c name len buf outname outname_len terminus offsetlen recursion_depth
       processed_preference =
     (if len > 0 \<and> outname < terminus then
        do { ch0 \<leftarrow> rd msg c;
             if char_is_label ch0 then
               do { ch \<leftarrow> rd msg (if processed_preference then c else c + 2);
                    if char_val ch < 64 \<and> (if processed_preference then len else len - 2) > char_val ch
                    then
                      (if char_val ch = 0 then
                         do { buf' \<leftarrow> wr buf outname 0;
                              Some \<lparr>n_err = dns_ok,
                                    n_name = (if processed_preference then c else c + 2) + 1,
                                    n_len = (if processed_preference then len else len - 2),
                                    n_buf = buf', n_outname = outname\<rparr> }
                       else
                         do { buf1 \<leftarrow> wr buf outname 0x2E;
                              (buf2, outname') \<leftarrow>
                                copy_label msg (if processed_preference then c else c + 2) 1
                                  (unat (ch + 1)) buf1 (outname + 1);
                              mxname_loop msg
                                ((if processed_preference then c else c + 2) + uint (ch + 1))
                                (name + uint (ch + 1))
                                ((if processed_preference then len else len - 2) - uint (ch + 1))
                                buf2 outname' (outname_len - ucast (ch + 1))
                                terminus offsetlen recursion_depth True })
                    else
                      Some \<lparr>n_err = dns_err_label_too_long, n_name = name,
                            n_len = (if processed_preference then len else len - 2),
                            n_buf = buf, n_outname = outname\<rparr> }
             else if char_is_offset ch0 then
               (case uint16_parse 0 name len of (err, offset, name', len') \<Rightarrow>
                  if err \<noteq> dns_ok then
                    Some \<lparr>n_err = dns_err_offset_too_long, n_name = name', n_len = len',
                          n_buf = buf, n_outname = outname\<rparr>
                  else
                    do { v \<leftarrow> ntohs_at msg offset;
                         if recursion_depth \<ge> DNS_MAX_RECURSION_DEPTH then
                           Some \<lparr>n_err = dns_err_offset_too_long, n_name = name', n_len = len',
                                 n_buf = buf, n_outname = outname\<rparr>
                         else
                           do { res \<leftarrow> dns_header_parse_mxname msg (uint (v AND 0x3FFF))
                                         (offsetlen - uint (v AND 0x3FFF)) buf outname outname_len
                                         (recursion_depth + 1);
                                Some (res\<lparr>n_name := name', n_len := len'\<rparr>) } })
             else
               Some \<lparr>n_err = dns_err_label_malformed, n_name = name, n_len = len, n_buf = buf,
                     n_outname = outname\<rparr> }
      else
        Some \<lparr>n_err = dns_err_unterminated, n_name = name, n_len = len, n_buf = buf,
              n_outname = outname\<rparr>)"
  by pat_completeness auto
termination
proof (relation "measures
    [\<lambda>x. case x of Inl (msg, name, len, buf, outname, outname_len, d) \<Rightarrow> 21 - d
               | Inr (msg, c, name, len, buf, outname, outname_len, terminus, offsetlen, d, pp) \<Rightarrow>
                   21 - d,
     \<lambda>x. case x of Inl _ \<Rightarrow> 1 | Inr _ \<Rightarrow> 0,
     \<lambda>x. case x of Inl _ \<Rightarrow> 0
               | Inr (msg, c, name, len, buf, outname, outname_len, terminus, offsetlen, d, pp) \<Rightarrow>
                   terminus - outname]", goal_cases)
  case 1
  show ?case by simp
next
  case 2
  then show ?case by simp
next
  case (3 msg c name len buf outname outname_len terminus offsetlen d pp ch0 ch buf1 x buf2 outname')
  from 3 have lt: "outname < terminus" by simp
  from 3 have "copy_label msg (if pp then c else c + 2) 1 (unat (ch + 1)) buf1 (outname + 1)
                 = Some (buf2, outname')"
    by simp
  then have "outname + 1 \<le> outname'" by (rule copy_label_outname)
  with lt show ?case by simp
next
  case 4
  then show ?case by (simp add: DNS_MAX_RECURSION_DEPTH_def)
qed

declare dns_header_parse_mxname.simps [simp del] mxname_loop.simps [simp del]

subsection \<open>The text builder\<close>

text \<open>
  The output stream is the text appended so far: \<^verbatim>\<open>buf.snprintf\<close> appends the formatted
  fragment. (The stream of the program is bounded and drops what does not fit; the
  bound belongs to the stream, not to the decoder.) \<open>dec\<close> is \<^verbatim>\<open>%u\<close>, \<open>hex\<close> is
  \<^verbatim>\<open>%x\<close>, and \<open>printf_d\<close> is \<^verbatim>\<open>%d\<close>, which prints the low 32 bits of its
  \<^verbatim>\<open>ssize_t\<close> argument as a signed number.
\<close>

definition digit :: "nat \<Rightarrow> char" where
  "digit n = ''0123456789abcdef'' ! n"

fun dec :: "nat \<Rightarrow> string" where
  "dec n = (if n < 10 then [digit n] else dec (n div 10) @ [digit (n mod 10)])"

declare dec.simps [simp del]

fun hex :: "nat \<Rightarrow> string" where
  "hex n = (if n < 16 then [digit n] else hex (n div 16) @ [digit (n mod 16)])"

declare hex.simps [simp del]

definition printf_d :: "int \<Rightarrow> string" where
  "printf_d v =
     (let i = sint (word_of_int v :: 32 word) in
      if i < 0 then CHR ''-'' # dec (nat (- i)) else dec (nat i))"

definition byte_char :: "byte \<Rightarrow> char" where
  "byte_char b = char_of (unat b)"

text \<open>
  The C string at \<open>buf + i\<close>: the bytes up to the first NUL. With no NUL in the array
  the read runs off its end.
\<close>

definition c_str :: "byte list \<Rightarrow> nat \<Rightarrow> string option" where
  "c_str buf i =
     (let s = takeWhile (\<lambda>b. b \<noteq> 0) (drop i buf) in
      if i + length s < length buf then Some (map byte_char s) else None)"

text \<open>\<^verbatim>\<open>inet_ntop(AF_INET, addr, ...)\<close>: the four bytes at \<open>addr\<close> as a dotted quad.\<close>

definition inet_ntop4 :: "byte list \<Rightarrow> int \<Rightarrow> string option" where
  "inet_ntop4 msg addr =
     do { a \<leftarrow> rd msg addr;
          b \<leftarrow> rd msg (addr + 1);
          c \<leftarrow> rd msg (addr + 2);
          d \<leftarrow> rd msg (addr + 3);
          Some (dec (unat a) @ ''.'' @ dec (unat b) @ ''.'' @ dec (unat c) @ ''.'' @ dec (unat d)) }"

text \<open>
  \<^verbatim>\<open>inet_ntop(AF_INET6, addr, ...)\<close> reads the sixteen bytes at \<open>addr\<close>; the text it makes
  of them is the C library's, and is the parameter \<open>ntop6\<close> of the functions below.
\<close>

fun rd_bytes :: "byte list \<Rightarrow> int \<Rightarrow> nat \<Rightarrow> byte list option" where
  "rd_bytes msg p 0 = Some []"
| "rd_bytes msg p (Suc n) =
     do { b \<leftarrow> rd msg p;
          bs \<leftarrow> rd_bytes msg (p + 1) n;
          Some (b # bs) }"

subsection \<open>The record payload dispatcher\<close>

record rdata_res =
  r_err :: dns_err
  r_r :: int
  r_len :: int
  r_out :: string

text \<open>
  \<open>rr\<close> is the pointer to the record's fixed fields, \<open>(r, len)\<close> the cursor the driver
  passes (its \<open>len\<close> is the driver's \<^verbatim>\<open>rdlength\<close> variable), \<open>out\<close> the stream.
  \<open>name0\<close> is what the uninitialised local array \<^verbatim>\<open>name\<close> holds at entry.
  The generic case stands twice in the source, for another type of class IN and for
  another class, with the same text: \<open>generic_rdata\<close>.
\<close>

definition generic_rdata :: "byte list \<Rightarrow> int \<Rightarrow> int \<Rightarrow> int \<Rightarrow> string \<Rightarrow> 16 word \<Rightarrow> 16 word
    \<Rightarrow> rdata_res option" where
  \<open>generic_rdata msg rr r len out rtype rclass =
     do { rdl \<leftarrow> ntohs_at msg (rr + 8);
          case data_advance r len (ucast rdl) of (err, r', len') \<Rightarrow>
            if err \<noteq> dns_ok then Some \<lparr>r_err = err, r_r = r', r_len = len', r_out = out\<rparr>
            else Some \<lparr>r_err = dns_ok, r_r = r', r_len = len',
                       r_out = out @ ''"type":"'' @ hex (unat rtype) @ ''","class":"''
                                 @ hex (unat rclass) @ ''","rdlength":'' @ dec (unat rdl)\<rparr> }\<close>

definition dns_rdata_print ::
  "(byte list \<Rightarrow> string) \<Rightarrow> byte list \<Rightarrow> byte list \<Rightarrow> int \<Rightarrow> int \<Rightarrow> int \<Rightarrow> string
     \<Rightarrow> rdata_res option" where
  \<open>dns_rdata_print ntop6 name0 msg rr r len out =
     do { rclass \<leftarrow> ntohs_at msg (rr + 2);
          rtype \<leftarrow> ntohs_at msg rr;
          if rclass = 1 then
            (if rtype = 1 then
               do { rdl \<leftarrow> ntohs_at msg (rr + 8);
                    case dns_addr_parse 0 r len rdl of (err, addr, r', len') \<Rightarrow>
                      if err \<noteq> dns_ok then
                        Some \<lparr>r_err = err, r_r = r', r_len = len', r_out = out\<rparr>
                      else
                        do { ipv4_addr \<leftarrow> inet_ntop4 msg addr;
                             Some \<lparr>r_err = dns_ok, r_r = r', r_len = len',
                                   r_out = out @ ''"a":"'' @ ipv4_addr @ ''"''\<rparr> } }
             else if rtype = 28 then
               do { rdl \<leftarrow> ntohs_at msg (rr + 8);
                    case dns_ipv6_addr_parse 0 r len rdl of (err, addr, r', len') \<Rightarrow>
                      if err \<noteq> dns_ok then
                        Some \<lparr>r_err = err, r_r = r', r_len = len', r_out = out\<rparr>
                      else
                        do { bs \<leftarrow> rd_bytes msg addr 16;
                             Some \<lparr>r_err = dns_ok, r_r = r', r_len = len',
                                   r_out = out @ ''"aaaa":"'' @ ntop6 bs @ ''"''\<rparr> } }
             else if rtype = 6 \<or> rtype = 12 \<or> rtype = 5 \<or> rtype = 2 \<or> rtype = 15 then
               do { res \<leftarrow>
                      (if rtype = 15 then
                         dns_header_parse_mxname msg r len name0 0
                           (of_nat (DNS_OUTNAME_LEN - 1)) 0
                       else
                         dns_header_parse_name msg r len name0 0
                           (of_nat (DNS_OUTNAME_LEN - 1)) 0);
                    if n_err res \<noteq> dns_ok then
                      Some \<lparr>r_err = n_err res, r_r = n_name res, r_len = n_len res, r_out = out\<rparr>
                    else
                      do { s \<leftarrow> c_str (n_buf res) 1;
                           let tname = (if rtype = 6 then ''soa'' else if rtype = 12 then ''ptr''
                                        else if rtype = 2 then ''ns'' else if rtype = 15 then ''mx''
                                        else ''cname'');
                               out1 = out @ ''"'' @ tname @ ''":"'' @ s @ ''"''
                           in if n_len res - 1 > 0 then
                                (case data_advance (n_name res) (n_len res)
                                        (word_of_int (n_len res - 1)) of (err, r', len') \<Rightarrow>
                                   if err \<noteq> dns_ok then
                                     Some \<lparr>r_err = err, r_r = r', r_len = len', r_out = out1\<rparr>
                                   else
                                     Some \<lparr>r_err = dns_ok, r_r = r', r_len = len',
                                           r_out = out1\<rparr>)
                              else
                                Some \<lparr>r_err = dns_ok, r_r = n_name res, r_len = n_len res,
                                      r_out = out1\<rparr> } }
             else if rtype = 16 then
               Some \<lparr>r_err = dns_ok, r_r = r, r_len = len, r_out = out @ ''"txt":"NYI"''\<rparr>
             else generic_rdata msg rr r len out rtype rclass)
          else generic_rdata msg rr r len out rtype rclass }\<close>

subsection \<open>The message driver\<close>

text \<open>
  The driver's variables: the cursor \<open>(r, len)\<close>, \<^verbatim>\<open>rdlength\<close>, the record pointer
  \<^verbatim>\<open>rr\<close>, \<^verbatim>\<open>comma\<close>, its array \<^verbatim>\<open>name\<close> and the stream.
\<close>

record pkt =
  p_r :: int
  p_len :: int
  p_rdlength :: int
  p_rr :: int
  p_comma :: nat
  p_name :: "byte list"
  p_out :: string

definition malformed :: "int \<Rightarrow> string" where
  \<open>malformed len = ''"malformed":'' @ printf_d len\<close>

text \<open>
  One pass through the body of a record loop; the three loops (answer, authority,
  additional) have the same body. The flag is \<open>True\<close> when the body executed
  \<^verbatim>\<open>return\<close>.
\<close>

definition rr_body ::
  "(byte list \<Rightarrow> string) \<Rightarrow> byte list \<Rightarrow> byte list \<Rightarrow> pkt \<Rightarrow> (bool \<times> pkt) option" where
  \<open>rr_body ntop6 name0 msg s =
     (let s0 = s\<lparr>p_comma := p_comma s + 1,
                 p_out := p_out s @ (if p_comma s \<noteq> 0 then '','' else []) @ ''{''\<rparr> in
      do { res \<leftarrow> dns_header_parse_name msg (p_r s0) (p_len s0) (p_name s0) 0
                    (of_nat (DNS_OUTNAME_LEN - 1)) 0;
           let s1 = s0\<lparr>p_r := n_name res, p_len := n_len res, p_name := n_buf res\<rparr> in
           if n_err res \<noteq> dns_ok then
             Some (True, s1\<lparr>p_out := p_out s1 @ malformed (p_len s1)\<rparr>)
           else
             do { (err, rr, r, len, rdlength) \<leftarrow>
                    dns_rr_parse msg (p_rr s1) (p_r s1) (p_len s1) (p_rdlength s1);
                  let s2 = s1\<lparr>p_rr := rr, p_r := r, p_len := len, p_rdlength := rdlength\<rparr> in
                  if err \<noteq> dns_ok then
                    Some (True, s2\<lparr>p_out := p_out s2 @ malformed (p_len s2)\<rparr>)
                  else
                    do { rd \<leftarrow> dns_rdata_print ntop6 name0 msg (p_rr s2) (p_r s2) (p_rdlength s2)
                                 (p_out s2);
                         let s3 = s2\<lparr>p_r := r_r rd, p_rdlength := r_len rd, p_out := r_out rd\<rparr> in
                         if r_err rd \<noteq> dns_ok then
                           Some (True, s3\<lparr>p_out := p_out s3 @ malformed (p_len s3) @ ''}]}''\<rparr>)
                         else
                           do { let s4 = s3\<lparr>p_len := p_len s3 - p_rdlength s3\<rparr>;
                                let s5 = (if p_rdlength s4 > 1
                                          then s4\<lparr>p_r := p_r s4 + (p_rdlength s4 - 1),
                                                  p_rdlength := 1\<rparr>
                                          else s4);
                                ttl \<leftarrow> ntohl_at msg (p_rr s5 + 4);
                                Some (False,
                                  s5\<lparr>p_out := p_out s5 @ '',"ttl":'' @ dec (unat ttl) @ ''}''\<rparr>) } } } })\<close>

fun rr_loop ::
  "(byte list \<Rightarrow> string) \<Rightarrow> byte list \<Rightarrow> byte list \<Rightarrow> nat \<Rightarrow> pkt \<Rightarrow> (bool \<times> pkt) option" where
  "rr_loop ntop6 name0 msg 0 s = Some (False, s)"
| "rr_loop ntop6 name0 msg (Suc n) s =
     do { (stop, s') \<leftarrow> rr_body ntop6 name0 msg s;
          if stop then Some (True, s') else rr_loop ntop6 name0 msg n s' }"

text \<open>The body of the question loop, with the letter \<open>qr\<close> of the key.\<close>

definition question_body :: "byte list \<Rightarrow> char \<Rightarrow> pkt \<Rightarrow> (bool \<times> pkt) option" where
  \<open>question_body msg qr s =
     do { res \<leftarrow> dns_header_parse_name msg (p_r s) (p_len s) (p_name s) 0
                   (of_nat (DNS_OUTNAME_LEN - 1)) 0;
          let s1 = s\<lparr>p_r := n_name res, p_len := n_len res, p_name := n_buf res\<rparr> in
          if n_err res \<noteq> dns_ok then
            Some (True, s1\<lparr>p_out := p_out s1 @ malformed (p_len s1)\<rparr>)
          else
            (case dns_question_parse (p_r s1) (p_len s1) of (err, r, len) \<Rightarrow>
               let s2 = s1\<lparr>p_r := r, p_len := len\<rparr> in
               if err \<noteq> dns_ok then
                 Some (True, s2\<lparr>p_out := p_out s2 @ malformed (p_len s2)\<rparr>)
               else
                 do { nm \<leftarrow> c_str (p_name s2) 1;
                      Some (False, s2\<lparr>p_out := p_out s2 @ ''"'' @ [qr] @ ''n":"'' @ nm @ ''",''\<rparr>) }) }\<close>

fun question_loop :: "byte list \<Rightarrow> char \<Rightarrow> nat \<Rightarrow> pkt \<Rightarrow> (bool \<times> pkt) option" where
  "question_loop msg qr 0 s = Some (False, s)"
| "question_loop msg qr (Suc n) s =
     do { (stop, s') \<leftarrow> question_body msg qr s;
          if stop then Some (True, s') else question_loop msg qr n s' }"

text \<open>Between two record loops: \<^verbatim>\<open>if (rdlength > 1) r += (rdlength - 1)\<close> and the memset.\<close>

definition next_section :: "pkt \<Rightarrow> pkt" where
  "next_section s =
     (if p_rdlength s > 1 then s\<lparr>p_r := p_r s + (p_rdlength s - 1)\<rparr> else s)
       \<lparr>p_name := replicate DNS_OUTNAME_LEN 0\<rparr>"

text \<open>\<^verbatim>\<open>dns_print_packet\<close> returns the text it has put on the (empty) stream.\<close>

definition dns_print_packet ::
  "(byte list \<Rightarrow> string) \<Rightarrow> byte list \<Rightarrow> byte list \<Rightarrow> string option" where
  \<open>dns_print_packet ntop6 name0 dns_pkt =
     (let pkt_len = int (length dns_pkt) in
      if pkt_len < 12 then Some (''{'' @ malformed pkt_len)
      else
        do { flags \<leftarrow> ntohs_at dns_pkt 2;
             let flags_rcode = (ucast (flags AND 0x000f) :: 8 word);
             let flags_qr = (ucast (drop_bit 15 flags) :: 8 word);
             let qr = (if flags_qr = 0 then CHR ''q'' else CHR ''r'');
             let s = \<lparr>p_r = 12, p_len = pkt_len - 12, p_rdlength = 0, p_rr = 0, p_comma = 0,
                      p_name = replicate DNS_OUTNAME_LEN 0, p_out = ''{''\<rparr>;
             qdcount \<leftarrow> ntohs_at dns_pkt 4;
             if qdcount > 1 then Some (p_out s @ malformed (p_len s))
             else
               do { (stop, s) \<leftarrow> question_loop dns_pkt qr (unat qdcount) s;
                    if stop then Some (p_out s)
                    else
                      do { let s = s\<lparr>p_out := p_out s @ ''"rc":'' @ dec (unat flags_rcode)
                                                @ '',"rr":[''\<rparr>;
                           ancount \<leftarrow> ntohs_at dns_pkt 6;
                           let s = s\<lparr>p_comma := 0, p_name := replicate DNS_OUTNAME_LEN 0\<rparr>;
                           (stop, s) \<leftarrow> rr_loop ntop6 name0 dns_pkt (unat ancount) s;
                           if stop then Some (p_out s)
                           else
                             do { nscount \<leftarrow> ntohs_at dns_pkt 8;
                                  (stop, s) \<leftarrow> rr_loop ntop6 name0 dns_pkt (unat nscount)
                                                 (next_section s);
                                  if stop then Some (p_out s)
                                  else
                                    do { arcount \<leftarrow> ntohs_at dns_pkt 10;
                                         (stop, s) \<leftarrow> rr_loop ntop6 name0 dns_pkt (unat arcount)
                                                        (next_section s);
                                         if stop then Some (p_out s)
                                         else Some (p_out s @ '']}'') } } } } })\<close>

subsection \<open>Names on the wire\<close>

text \<open>
  What the properties below speak of. A compression pointer stands at \<open>p\<close> when two
  bytes can be read there and the first has the tag 11; its target is the low 14 bits.
  \<open>pointer_chain msg e n p q\<close>: following \<open>n\<close> pointers from \<open>p\<close> leads to \<open>q\<close>, and
  each of them ends at or before \<open>e\<close>, the end of the bytes the decoder was given.
\<close>

definition pointer_at :: "byte list \<Rightarrow> int \<Rightarrow> bool" where
  "pointer_at msg p =
     (case rd msg p of None \<Rightarrow> False | Some ch \<Rightarrow> char_is_offset ch \<and> rd msg (p + 1) \<noteq> None)"

definition pointer_target :: "byte list \<Rightarrow> int \<Rightarrow> int" where
  "pointer_target msg p = (case ntohs_at msg p of None \<Rightarrow> 0 | Some v \<Rightarrow> uint (v AND 0x3FFF))"

fun pointer_chain :: "byte list \<Rightarrow> int \<Rightarrow> nat \<Rightarrow> int \<Rightarrow> int \<Rightarrow> bool" where
  "pointer_chain msg e 0 p q = (p = q)"
| "pointer_chain msg e (Suc n) p q =
     (pointer_at msg p \<and> p + 2 \<le> e \<and> pointer_chain msg e n (pointer_target msg p) q)"

text \<open>
  The wire form of a pointer-free name: each label behind its length byte, then the
  zero byte. The name is well formed at \<open>q\<close> when its labels have 1 to 63 bytes, its
  wire form stands at \<open>q\<close> and ends at or before \<open>e\<close>, and it fits the output array.
\<close>

definition encode_name :: "byte list list \<Rightarrow> byte list" where
  "encode_name ls = concat (map (\<lambda>l. of_nat (length l) # l) ls) @ [0]"

definition wf_name_at :: "byte list \<Rightarrow> int \<Rightarrow> int \<Rightarrow> byte list list \<Rightarrow> bool" where
  "wf_name_at msg q e ls =
     (0 \<le> q \<and> list_all (\<lambda>l. 0 < length l \<and> length l < 64) ls
      \<and> take (length (encode_name ls)) (drop (nat q) msg) = encode_name ls
      \<and> q + int (length (encode_name ls)) \<le> e
      \<and> length (encode_name ls) < DNS_OUTNAME_LEN)"

section \<open>Properties of the decoder\<close>

subsection \<open>TXT records\<close>

text \<open>
  Claim C10. For a record of class IN (1) and type TXT (16) the payload dispatcher
  returns \<^verbatim>\<open>dns_ok\<close>, leaves the cursor and the length where they were (it consumes
  no payload byte) and appends exactly the fragment \<^verbatim>\<open>"txt":"NYI"\<close>, whatever the
  payload bytes and the declared rdlength are.
\<close>

theorem txt_record_placeholder:
  assumes "ntohs_at msg (rr + 2) = Some 1" and "ntohs_at msg rr = Some 16"
  shows \<open>dns_rdata_print ntop6 name0 msg rr r len out =
           Some \<lparr>r_err = dns_ok, r_r = r, r_len = len, r_out = out @ ''"txt":"NYI"''\<rparr>\<close>
  using assms by (simp add: dns_rdata_print_def)

theorem txt_record_placeholder_witness:
  \<open>ntohs_at [0, 16, 0, 1, 0, 0, 0, 60, 0, 3, 2, 0x68, 0x69] (0 + 2) = Some 1 \<and>
   ntohs_at [0, 16, 0, 1, 0, 0, 0, 60, 0, 3, 2, 0x68, 0x69] 0 = Some 16 \<and>
   dns_rdata_print (\<lambda>bs. []) [] [0, 16, 0, 1, 0, 0, 0, 60, 0, 3, 2, 0x68, 0x69] 0 10 3 ''{'' =
     Some \<lparr>r_err = dns_ok, r_r = 10, r_len = 3, r_out = ''{"txt":"NYI"''\<rparr>\<close>
proof -
  have a: "ntohs_at [0, 16, 0, 1, 0, 0, 0, 60, 0, 3, 2, 0x68, 0x69] (0 + 2) = Some 1"
    by (simp add: ntohs_at_def rd_def)
  have b: "ntohs_at [0, 16, 0, 1, 0, 0, 0, 60, 0, 3, 2, 0x68, 0x69] 0 = Some 16"
    by (simp add: ntohs_at_def rd_def)
  from txt_record_placeholder [OF a b, of "\<lambda>bs. []" "[]" 10 3 "''{''"] a b
  show ?thesis by simp
qed

subsection \<open>Label length bytes\<close>

text \<open>The copy loop succeeds when the label lies in the message and fits the array.\<close>

lemma copy_label_Some:
  assumes "0 \<le> c" and "nat c + jump \<le> length msg" and "outname + (jump - i) \<le> length buf"
  shows "\<exists>buf'. copy_label msg c i jump buf outname = Some (buf', outname + (jump - i))
           \<and> length buf' = length buf"
  using assms
proof (induction msg c i jump buf outname rule: copy_label.induct)
  case (1 msg c i jump buf outname)
  show ?case
  proof (cases "i < jump")
    case True
    with "1.prems" have b: "rd msg (c + int i) = Some (msg ! nat (c + int i))"
      by (simp add: rd_def)
    from True "1.prems" have w: "wr buf outname (printable (msg ! nat (c + int i)))
        = Some (buf[outname := printable (msg ! nat (c + int i))])"
      by (simp add: wr_def)
    from True "1.prems" have
      "\<exists>buf'. copy_label msg c (i + 1) jump (buf[outname := printable (msg ! nat (c + int i))])
                (outname + 1) = Some (buf', outname + 1 + (jump - (i + 1)))
           \<and> length buf' = length (buf[outname := printable (msg ! nat (c + int i))])"
      by (intro "1.IH" [OF True b w]) simp_all
    with True b w show ?thesis
      by (subst copy_label.simps) (auto simp: Suc_diff_Suc)
  next
    case False
    then show ?thesis by (subst copy_label.simps) simp
  qed
qed

lemma label_64_malformed:
  assumes "rd msg name = Some 64" and "0 < len" and "2 \<le> outname_len"
    and "outname + 1 < length buf"
  shows "dns_header_parse_name msg name len buf outname outname_len d =
           Some \<lparr>n_err = dns_err_label_malformed, n_name = name, n_len = len,
                 n_buf = buf[outname + 1 := 0], n_outname = outname\<rparr>"
proof -
  from assms(3) have ol: "\<not> outname_len < 2" "0 < unat outname_len"
    by (simp_all add: not_less word_le_nat_alt)
  show ?thesis
    using assms ol
    by (simp add: dns_header_parse_name.simps name_loop.simps wr_def char_is_label_def
        char_is_offset_def)
qed

lemma label_63_accepted:
  assumes xs: "length xs = 63" and buf: "length buf = DNS_OUTNAME_LEN" and len: "65 \<le> len"
  shows "map_option (\<lambda>r. (n_err r, n_name r, n_len r, n_outname r))
           (dns_header_parse_name (pre @ 63 # xs @ 0 # post) (int (length pre)) len buf 0
              (of_nat (DNS_OUTNAME_LEN - 1)) d)
         = Some (dns_ok, int (length pre) + 65, len - 64, 64)"
proof -
  let ?msg = "pre @ 63 # xs @ 0 # post"
  let ?p = "int (length pre)"
  have r0: "rd ?msg ?p = Some 63"
    by (simp add: rd_def nth_append)
  have r1: "rd ?msg (?p + 64) = Some 0"
    using xs by (simp add: rd_def nth_append nat_add_distrib)
  obtain buf2 where c: "copy_label ?msg ?p (Suc 0) 64 (buf[Suc 0 := 0, 0 := 0x2E]) (Suc 0) = Some (buf2, 64)"
    and l2: "length buf2 = 256"
    using copy_label_Some [of ?p 64 ?msg "Suc 0" "Suc 0" "buf[Suc 0 := 0, 0 := 0x2E]"] xs buf
    by (auto simp: DNS_OUTNAME_LEN_def)
  show ?thesis
    using r0 len buf
    apply (simp add: dns_header_parse_name.simps DNS_OUTNAME_LEN_def wr_def)
    apply (subst name_loop.simps)
    apply (simp add: char_is_label_def char_val_def wr_def c)
    apply (subst name_loop.simps)
    apply (simp add: r1 char_is_label_def char_val_def wr_def l2)
    done
qed

text \<open>
  Claim C9, as stated (a length byte of 64 yields \<^verbatim>\<open>dns_err_label_too_long\<close>), fails:
  0x40 has the tag bits 01, so it is neither a label nor an offset, and the decoder
  returns \<^verbatim>\<open>dns_err_label_malformed\<close>, here with 64 bytes and a terminator behind it.
\<close>

theorem label_64_counterexample:
  "map_option n_err
     (dns_header_parse_name (replicate 12 0 @ 64 # replicate 64 0x61 @ [0]) 12 66
        (replicate 256 0) 0 255 0) = Some dns_err_label_malformed
   \<and> dns_err_label_malformed \<noteq> dns_err_label_too_long"
  by code_simp

text \<open>
  Claim C9, amended. A length byte of 63 is accepted given sufficient remaining bytes:
  a name of one label of 63 bytes and the terminator, anywhere in a message, decodes
  with \<^verbatim>\<open>dns_ok\<close>, the cursor behind the terminator and 64 bytes appended. A length
  byte of 64 fails with \<^verbatim>\<open>dns_err_label_malformed\<close>, whatever follows it.
\<close>

theorem label_63_accepted_64_malformed:
  assumes "length xs = 63" and "length buf = DNS_OUTNAME_LEN" and "65 \<le> len"
    and "rd msg name = Some 64" and "0 < len'"
  shows "map_option (\<lambda>r. (n_err r, n_name r, n_len r, n_outname r))
           (dns_header_parse_name (pre @ 63 # xs @ 0 # post) (int (length pre)) len buf 0
              (of_nat (DNS_OUTNAME_LEN - 1)) d)
         = Some (dns_ok, int (length pre) + 65, len - 64, 64)
       \<and> map_option (\<lambda>r. (n_err r, n_name r, n_len r, n_outname r))
           (dns_header_parse_name msg name len' buf 0 (of_nat (DNS_OUTNAME_LEN - 1)) d)
         = Some (dns_err_label_malformed, name, len', 0)"
proof
  show "map_option (\<lambda>r. (n_err r, n_name r, n_len r, n_outname r))
           (dns_header_parse_name (pre @ 63 # xs @ 0 # post) (int (length pre)) len buf 0
              (of_nat (DNS_OUTNAME_LEN - 1)) d)
         = Some (dns_ok, int (length pre) + 65, len - 64, 64)"
    using assms(1-3) by (rule label_63_accepted)
next
  have "dns_header_parse_name msg name len' buf 0 (of_nat (DNS_OUTNAME_LEN - 1)) d =
          Some \<lparr>n_err = dns_err_label_malformed, n_name = name, n_len = len',
                n_buf = buf[0 + 1 := 0], n_outname = 0\<rparr>"
    using assms(2,4,5) by (intro label_64_malformed) (simp_all add: DNS_OUTNAME_LEN_def)
  then show "map_option (\<lambda>r. (n_err r, n_name r, n_len r, n_outname r))
           (dns_header_parse_name msg name len' buf 0 (of_nat (DNS_OUTNAME_LEN - 1)) d)
         = Some (dns_err_label_malformed, name, len', 0)"
    by simp
qed

theorem label_63_accepted_64_malformed_witness:
  "length (replicate 63 (0x61 :: byte)) = 63 \<and> length (replicate 256 (0 :: byte)) = DNS_OUTNAME_LEN
   \<and> (65 :: int) \<le> 65 \<and> rd (replicate 12 0 @ [64, 0]) 12 = Some 64 \<and> (0 :: int) < 2
   \<and> map_option (\<lambda>r. (n_err r, n_name r, n_len r, n_outname r))
        (dns_header_parse_name (replicate 12 0 @ 63 # replicate 63 0x61 @ 0 # [])
           (int (length (replicate 12 (0 :: byte)))) 65 (replicate 256 0) 0
           (of_nat (DNS_OUTNAME_LEN - 1)) 0)
       = Some (dns_ok, int (length (replicate 12 (0 :: byte))) + 65, 65 - 64, 64)
   \<and> map_option (\<lambda>r. (n_err r, n_name r, n_len r, n_outname r))
        (dns_header_parse_name (replicate 12 0 @ [64, 0]) 12 2 (replicate 256 0) 0
           (of_nat (DNS_OUTNAME_LEN - 1)) 0)
       = Some (dns_err_label_malformed, 12, 2, 0)"
proof -
  have h1: "length (replicate 63 (0x61 :: byte)) = 63" by simp
  have h2: "length (replicate 256 (0 :: byte)) = DNS_OUTNAME_LEN"
    by (simp add: DNS_OUTNAME_LEN_def)
  have h3: "(65 :: int) \<le> 65" by simp
  have h4: "rd (replicate 12 0 @ [64, 0]) 12 = Some 64" by (simp add: rd_def nth_append)
  have h5: "(0 :: int) < 2" by simp
  from label_63_accepted_64_malformed [OF h1 h2 h3 h4 h5, of "replicate 12 0" "[]" 0]
    h1 h2 h3 h4 h5
  show ?thesis by blast
qed

subsection \<open>The branches of the decoding loops\<close>

text \<open>
  One equation for each way through the body of \<open>name_loop\<close> and of \<open>mxname_loop\<close>,
  and the fact that neither decoder ever hands back a larger \<^verbatim>\<open>*len\<close> than it was given.
\<close>

lemma name_loop_stop:
  "\<not> (0 < len \<and> outname < terminus) \<Longrightarrow>
   name_loop msg c name len buf outname ol terminus offsetlen d =
     Some \<lparr>n_err = dns_err_unterminated, n_name = name, n_len = len, n_buf = buf,
           n_outname = outname\<rparr>"
  by (subst name_loop.simps) auto

lemma name_loop_fault:
  "0 < len \<Longrightarrow> outname < terminus \<Longrightarrow> rd msg c = None \<Longrightarrow>
   name_loop msg c name len buf outname ol terminus offsetlen d = None"
  by (subst name_loop.simps) simp

lemma name_loop_null:
  "0 < len \<Longrightarrow> outname < terminus \<Longrightarrow> rd msg c = Some ch \<Longrightarrow> char_is_label ch \<Longrightarrow>
   char_val ch < 64 \<Longrightarrow> char_val ch < len \<Longrightarrow> char_val ch = 0 \<Longrightarrow>
   name_loop msg c name len buf outname ol terminus offsetlen d =
     do { buf' \<leftarrow> wr buf outname 0;
          Some \<lparr>n_err = dns_ok, n_name = c + 1, n_len = len, n_buf = buf',
                n_outname = outname\<rparr> }"
  by (subst name_loop.simps) simp

lemma name_loop_label:
  "0 < len \<Longrightarrow> outname < terminus \<Longrightarrow> rd msg c = Some ch \<Longrightarrow> char_is_label ch \<Longrightarrow>
   char_val ch < 64 \<Longrightarrow> char_val ch < len \<Longrightarrow> char_val ch \<noteq> 0 \<Longrightarrow>
   name_loop msg c name len buf outname ol terminus offsetlen d =
     do { buf1 \<leftarrow> wr buf outname 0x2E;
          (buf2, outname') \<leftarrow> copy_label msg c 1 (unat (ch + 1)) buf1 (outname + 1);
          name_loop msg (c + uint (ch + 1)) (name + uint (ch + 1)) (len - uint (ch + 1)) buf2
            outname' (ol - ucast (ch + 1)) terminus offsetlen d }"
  by (subst name_loop.simps) simp

lemma name_loop_too_long:
  "0 < len \<Longrightarrow> outname < terminus \<Longrightarrow> rd msg c = Some ch \<Longrightarrow> char_is_label ch \<Longrightarrow>
   \<not> (char_val ch < 64 \<and> char_val ch < len) \<Longrightarrow>
   name_loop msg c name len buf outname ol terminus offsetlen d =
     Some \<lparr>n_err = dns_err_label_too_long, n_name = name, n_len = len, n_buf = buf,
           n_outname = outname\<rparr>"
  by (subst name_loop.simps) auto

lemma name_loop_offset_short:
  "0 < len \<Longrightarrow> outname < terminus \<Longrightarrow> rd msg c = Some ch \<Longrightarrow> \<not> char_is_label ch \<Longrightarrow>
   char_is_offset ch \<Longrightarrow> len < 2 \<Longrightarrow>
   name_loop msg c name len buf outname ol terminus offsetlen d =
     Some \<lparr>n_err = dns_err_offset_too_long, n_name = name, n_len = len, n_buf = buf,
           n_outname = outname\<rparr>"
  by (subst name_loop.simps) (simp add: uint16_parse_def)

lemma name_loop_offset_deep:
  "0 < len \<Longrightarrow> outname < terminus \<Longrightarrow> rd msg c = Some ch \<Longrightarrow> \<not> char_is_label ch \<Longrightarrow>
   char_is_offset ch \<Longrightarrow> \<not> len < 2 \<Longrightarrow> DNS_MAX_RECURSION_DEPTH \<le> d \<Longrightarrow>
   name_loop msg c name len buf outname ol terminus offsetlen d =
     do { v \<leftarrow> ntohs_at msg name;
          Some \<lparr>n_err = dns_err_offset_too_long, n_name = name + 2, n_len = len - 2,
                n_buf = buf, n_outname = outname\<rparr> }"
  by (subst name_loop.simps) (simp add: uint16_parse_def)

lemma name_loop_offset_jump:
  "0 < len \<Longrightarrow> outname < terminus \<Longrightarrow> rd msg c = Some ch \<Longrightarrow> \<not> char_is_label ch \<Longrightarrow>
   char_is_offset ch \<Longrightarrow> \<not> len < 2 \<Longrightarrow> \<not> DNS_MAX_RECURSION_DEPTH \<le> d \<Longrightarrow>
   name_loop msg c name len buf outname ol terminus offsetlen d =
     do { v \<leftarrow> ntohs_at msg name;
          res \<leftarrow> dns_header_parse_name msg (uint (v AND 0x3FFF))
                   (offsetlen - uint (v AND 0x3FFF)) buf outname ol (d + 1);
          Some (res\<lparr>n_name := name + 2, n_len := len - 2\<rparr>) }"
  by (subst name_loop.simps) (simp add: uint16_parse_def)

lemma name_loop_malformed:
  "0 < len \<Longrightarrow> outname < terminus \<Longrightarrow> rd msg c = Some ch \<Longrightarrow> \<not> char_is_label ch \<Longrightarrow>
   \<not> char_is_offset ch \<Longrightarrow>
   name_loop msg c name len buf outname ol terminus offsetlen d =
     Some \<lparr>n_err = dns_err_label_malformed, n_name = name, n_len = len, n_buf = buf,
           n_outname = outname\<rparr>"
  by (subst name_loop.simps) simp


lemma parse_name_len_le:
  "dns_header_parse_name msg name len buf outname ol d = Some res \<Longrightarrow> n_len res \<le> len"
  "name_loop msg c name' len' buf' outname' ol' terminus offsetlen d' = Some res' \<Longrightarrow>
     n_len res' \<le> len'"
proof (induction msg name len buf outname ol d and msg c name' len' buf' outname' ol' terminus
    offsetlen d' arbitrary: res and res' rule: dns_header_parse_name_name_loop.induct)
  case (1 msg name len buf outname outname_len recursion_depth)
  show ?case
  proof (cases "len \<le> 0 \<or> outname + unat outname_len < outname \<or> outname_len < 2")
    case True
    with "1.prems" show ?thesis
      by (subst (asm) dns_header_parse_name.simps) auto
  next
    case False
    with "1.prems" obtain buf1 where w: "wr buf (outname + 1) 0 = Some buf1"
      and l: "name_loop msg name name len buf1 outname outname_len (outname + unat outname_len)
                (name + len) recursion_depth = Some res"
      by (subst (asm) dns_header_parse_name.simps) (auto simp: bind_eq_Some_conv)
    from "1.IH" [OF False w l] show ?thesis .
  qed
next
  case (2 msg c name len buf outname outname_len terminus offsetlen recursion_depth)
  note eq = "2.prems"
  show ?case
  proof (cases "0 < len \<and> outname < terminus")
    case False
    with eq show ?thesis by (auto simp: name_loop_stop)
  next
    case run: True
    then have r1: "0 < len" and r2: "outname < terminus" by simp_all
    show ?thesis
    proof (cases "rd msg c")
      case None
      with eq r1 r2 show ?thesis by (auto simp: name_loop_fault)
    next
      case (Some ch)
      show ?thesis
      proof (cases "char_is_label ch")
        case lab: True
        show ?thesis
        proof (cases "char_val ch < 64 \<and> char_val ch < len")
          case fits: True
          then have f1: "char_val ch < 64" and f2: "char_val ch < len" by simp_all
          show ?thesis
          proof (cases "char_val ch = 0")
            case True
            with eq r1 r2 Some lab f1 f2 show ?thesis
              by (auto simp: name_loop_null bind_eq_Some_conv)
          next
            case nz: False
            from eq obtain buf1 buf2 outname' where
              w: "wr buf outname 0x2E = Some buf1" and
              cp: "copy_label msg c 1 (unat (ch + 1)) buf1 (outname + 1) = Some (buf2, outname')" and
              l: "name_loop msg (c + uint (ch + 1)) (name + uint (ch + 1)) (len - uint (ch + 1))
                    buf2 outname' (outname_len - ucast (ch + 1)) terminus offsetlen
                    recursion_depth = Some res'"
              by (auto simp: name_loop_label [OF r1 r2 Some lab f1 f2 nz] bind_eq_Some_conv)
            from "2.IH"(1) [OF run Some lab fits nz w cp refl l]
            have "n_len res' \<le> len - uint (ch + 1)" .
            moreover have "0 \<le> uint (ch + 1)" by simp
            ultimately show ?thesis by linarith
          qed
        next
          case False
          with eq r1 r2 Some lab show ?thesis by (auto simp: name_loop_too_long)
        qed
      next
        case nolab: False
        show ?thesis
        proof (cases "char_is_offset ch")
          case off: True
          show ?thesis
          proof (cases "len < 2")
            case True
            with eq r1 r2 Some nolab off show ?thesis by (auto simp: name_loop_offset_short)
          next
            case long: False
            show ?thesis
            proof (cases "DNS_MAX_RECURSION_DEPTH \<le> recursion_depth")
              case True
              with eq r1 r2 Some nolab off long show ?thesis
                by (auto simp: name_loop_offset_deep bind_eq_Some_conv)
            next
              case False
              with eq r1 r2 Some nolab off long show ?thesis
                by (auto simp: name_loop_offset_jump bind_eq_Some_conv)
            qed
          qed
        next
          case False
          with eq r1 r2 Some nolab show ?thesis by (auto simp: name_loop_malformed)
        qed
      qed
    qed
  qed
qed


lemma mxname_loop_stop:
  "\<not> (0 < len \<and> outname < terminus) \<Longrightarrow>
   mxname_loop msg c name len buf outname ol terminus offsetlen d pp =
     Some \<lparr>n_err = dns_err_unterminated, n_name = name, n_len = len, n_buf = buf,
           n_outname = outname\<rparr>"
  by (subst mxname_loop.simps) auto

lemma mxname_loop_fault:
  "0 < len \<Longrightarrow> outname < terminus \<Longrightarrow> rd msg c = None \<Longrightarrow>
   mxname_loop msg c name len buf outname ol terminus offsetlen d pp = None"
  by (subst mxname_loop.simps) simp

lemma mxname_loop_label_fault:
  "0 < len \<Longrightarrow> outname < terminus \<Longrightarrow> rd msg c = Some ch0 \<Longrightarrow> char_is_label ch0 \<Longrightarrow>
   rd msg (if pp then c else c + 2) = None \<Longrightarrow>
   mxname_loop msg c name len buf outname ol terminus offsetlen d pp = None"
  by (subst mxname_loop.simps) simp

lemma mxname_loop_null:
  "0 < len \<Longrightarrow> outname < terminus \<Longrightarrow> rd msg c = Some ch0 \<Longrightarrow> char_is_label ch0 \<Longrightarrow>
   rd msg (if pp then c else c + 2) = Some ch \<Longrightarrow>
   char_val ch < 64 \<Longrightarrow> char_val ch < (if pp then len else len - 2) \<Longrightarrow> char_val ch = 0 \<Longrightarrow>
   mxname_loop msg c name len buf outname ol terminus offsetlen d pp =
     do { buf' \<leftarrow> wr buf outname 0;
          Some \<lparr>n_err = dns_ok, n_name = (if pp then c else c + 2) + 1,
                n_len = (if pp then len else len - 2), n_buf = buf', n_outname = outname\<rparr> }"
  by (subst mxname_loop.simps) simp

lemma mxname_loop_label:
  "0 < len \<Longrightarrow> outname < terminus \<Longrightarrow> rd msg c = Some ch0 \<Longrightarrow> char_is_label ch0 \<Longrightarrow>
   rd msg (if pp then c else c + 2) = Some ch \<Longrightarrow>
   char_val ch < 64 \<Longrightarrow> char_val ch < (if pp then len else len - 2) \<Longrightarrow> char_val ch \<noteq> 0 \<Longrightarrow>
   mxname_loop msg c name len buf outname ol terminus offsetlen d pp =
     do { buf1 \<leftarrow> wr buf outname 0x2E;
          (buf2, outname') \<leftarrow>
            copy_label msg (if pp then c else c + 2) 1 (unat (ch + 1)) buf1 (outname + 1);
          mxname_loop msg ((if pp then c else c + 2) + uint (ch + 1)) (name + uint (ch + 1))
            ((if pp then len else len - 2) - uint (ch + 1)) buf2 outname'
            (ol - ucast (ch + 1)) terminus offsetlen d True }"
  by (subst mxname_loop.simps) simp

lemma mxname_loop_too_long:
  "0 < len \<Longrightarrow> outname < terminus \<Longrightarrow> rd msg c = Some ch0 \<Longrightarrow> char_is_label ch0 \<Longrightarrow>
   rd msg (if pp then c else c + 2) = Some ch \<Longrightarrow>
   \<not> (char_val ch < 64 \<and> char_val ch < (if pp then len else len - 2)) \<Longrightarrow>
   mxname_loop msg c name len buf outname ol terminus offsetlen d pp =
     Some \<lparr>n_err = dns_err_label_too_long, n_name = name,
           n_len = (if pp then len else len - 2), n_buf = buf, n_outname = outname\<rparr>"
  by (subst mxname_loop.simps) auto

lemma mxname_loop_offset_short:
  "0 < len \<Longrightarrow> outname < terminus \<Longrightarrow> rd msg c = Some ch \<Longrightarrow> \<not> char_is_label ch \<Longrightarrow>
   char_is_offset ch \<Longrightarrow> len < 2 \<Longrightarrow>
   mxname_loop msg c name len buf outname ol terminus offsetlen d pp =
     Some \<lparr>n_err = dns_err_offset_too_long, n_name = name, n_len = len, n_buf = buf,
           n_outname = outname\<rparr>"
  by (subst mxname_loop.simps) (simp add: uint16_parse_def)

lemma mxname_loop_offset_deep:
  "0 < len \<Longrightarrow> outname < terminus \<Longrightarrow> rd msg c = Some ch \<Longrightarrow> \<not> char_is_label ch \<Longrightarrow>
   char_is_offset ch \<Longrightarrow> \<not> len < 2 \<Longrightarrow> DNS_MAX_RECURSION_DEPTH \<le> d \<Longrightarrow>
   mxname_loop msg c name len buf outname ol terminus offsetlen d pp =
     do { v \<leftarrow> ntohs_at msg name;
          Some \<lparr>n_err = dns_err_offset_too_long, n_name = name + 2, n_len = len - 2,
                n_buf = buf, n_outname = outname\<rparr> }"
  by (subst mxname_loop.simps) (simp add: uint16_parse_def)

lemma mxname_loop_offset_jump:
  "0 < len \<Longrightarrow> outname < terminus \<Longrightarrow> rd msg c = Some ch \<Longrightarrow> \<not> char_is_label ch \<Longrightarrow>
   char_is_offset ch \<Longrightarrow> \<not> len < 2 \<Longrightarrow> \<not> DNS_MAX_RECURSION_DEPTH \<le> d \<Longrightarrow>
   mxname_loop msg c name len buf outname ol terminus offsetlen d pp =
     do { v \<leftarrow> ntohs_at msg name;
          res \<leftarrow> dns_header_parse_mxname msg (uint (v AND 0x3FFF))
                   (offsetlen - uint (v AND 0x3FFF)) buf outname ol (d + 1);
          Some (res\<lparr>n_name := name + 2, n_len := len - 2\<rparr>) }"
  by (subst mxname_loop.simps) (simp add: uint16_parse_def)

lemma mxname_loop_malformed:
  "0 < len \<Longrightarrow> outname < terminus \<Longrightarrow> rd msg c = Some ch \<Longrightarrow> \<not> char_is_label ch \<Longrightarrow>
   \<not> char_is_offset ch \<Longrightarrow>
   mxname_loop msg c name len buf outname ol terminus offsetlen d pp =
     Some \<lparr>n_err = dns_err_label_malformed, n_name = name, n_len = len, n_buf = buf,
           n_outname = outname\<rparr>"
  by (subst mxname_loop.simps) simp

lemma parse_mxname_len_le:
  "dns_header_parse_mxname msg name len buf outname ol d = Some res \<Longrightarrow> n_len res \<le> len"
  "mxname_loop msg c name' len' buf' outname' ol' terminus offsetlen d' pp = Some res' \<Longrightarrow>
     n_len res' \<le> len'"
proof (induction msg name len buf outname ol d and msg c name' len' buf' outname' ol' terminus
    offsetlen d' pp arbitrary: res and res' rule: dns_header_parse_mxname_mxname_loop.induct)
  case (1 msg name len buf outname outname_len recursion_depth)
  show ?case
  proof (cases "len \<le> 0 \<or> outname + unat outname_len < outname \<or> outname_len < 2")
    case True
    with "1.prems" show ?thesis
      by (subst (asm) dns_header_parse_mxname.simps) auto
  next
    case False
    with "1.prems" obtain buf1 where w: "wr buf (outname + 1) 0 = Some buf1"
      and l: "mxname_loop msg name name len buf1 outname outname_len (outname + unat outname_len)
                (name + len) recursion_depth False = Some res"
      by (subst (asm) dns_header_parse_mxname.simps) (auto simp: bind_eq_Some_conv)
    from "1.IH" [OF False w l] show ?thesis .
  qed
next
  case (2 msg c name len buf outname outname_len terminus offsetlen recursion_depth pp)
  note eq = "2.prems"
  let ?c1 = "if pp then c else c + 2"
  let ?len1 = "if pp then len else len - 2"
  have len1: "?len1 \<le> len" by simp
  show ?case
  proof (cases "0 < len \<and> outname < terminus")
    case False
    with eq show ?thesis by (auto simp: mxname_loop_stop)
  next
    case run: True
    then have r1: "0 < len" and r2: "outname < terminus" by simp_all
    show ?thesis
    proof (cases "rd msg c")
      case None
      with eq r1 r2 show ?thesis by (auto simp: mxname_loop_fault)
    next
      case (Some ch0)
      show ?thesis
      proof (cases "char_is_label ch0")
        case lab: True
        show ?thesis
        proof (cases "rd msg ?c1")
          case None
          with eq r1 r2 Some lab show ?thesis by (simp add: mxname_loop_label_fault)
        next
          case ch: (Some ch)
          show ?thesis
          proof (cases "char_val ch < 64 \<and> char_val ch < ?len1")
            case fits: True
            then have f1: "char_val ch < 64" and f2: "char_val ch < ?len1" by simp_all
            show ?thesis
            proof (cases "char_val ch = 0")
              case True
              from eq have "n_len res' = ?len1"
                by (auto simp: mxname_loop_null [OF r1 r2 Some lab ch f1 f2 True]
                    bind_eq_Some_conv)
              with len1 show ?thesis by simp
            next
              case nz: False
              from eq obtain buf1 buf2 outname' where
                w: "wr buf outname 0x2E = Some buf1" and
                cp: "copy_label msg ?c1 1 (unat (ch + 1)) buf1 (outname + 1)
                       = Some (buf2, outname')" and
                l: "mxname_loop msg (?c1 + uint (ch + 1)) (name + uint (ch + 1))
                      (?len1 - uint (ch + 1)) buf2 outname' (outname_len - ucast (ch + 1))
                      terminus offsetlen recursion_depth True = Some res'"
                by (auto simp: mxname_loop_label [OF r1 r2 Some lab ch f1 f2 nz]
                    bind_eq_Some_conv)
              from "2.IH"(1) [OF run Some lab ch fits nz w cp refl l]
              have "n_len res' \<le> ?len1 - uint (ch + 1)" .
              moreover have "0 \<le> uint (ch + 1)" by simp
              ultimately show ?thesis using len1 by linarith
            qed
          next
            case False
            from eq have "n_len res' = ?len1"
              by (auto simp: mxname_loop_too_long [OF r1 r2 Some lab ch False])
            with len1 show ?thesis by simp
          qed
        qed
      next
        case nolab: False
        show ?thesis
        proof (cases "char_is_offset ch0")
          case off: True
          show ?thesis
          proof (cases "len < 2")
            case True
            with eq r1 r2 Some nolab off show ?thesis by (auto simp: mxname_loop_offset_short)
          next
            case long: False
            show ?thesis
            proof (cases "DNS_MAX_RECURSION_DEPTH \<le> recursion_depth")
              case True
              with eq r1 r2 Some nolab off long show ?thesis
                by (auto simp: mxname_loop_offset_deep bind_eq_Some_conv)
            next
              case False
              with eq r1 r2 Some nolab off long show ?thesis
                by (auto simp: mxname_loop_offset_jump bind_eq_Some_conv)
            qed
          qed
        next
          case False
          with eq r1 r2 Some nolab show ?thesis by (auto simp: mxname_loop_malformed)
        qed
      qed
    qed
  qed
qed

subsection \<open>Error returns of the payload dispatcher\<close>

text \<open>
  The only call after a fragment has been printed is \<^verbatim>\<open>data_advance(r, len, *len-1)\<close>,
  made when \<^verbatim>\<open>*len - 1 > 0\<close>; below \<open>2 ^ 32\<close> its unsigned comparison cannot fail.
\<close>

lemma data_advance_rest:
  assumes "1 < L" and "L < 2 ^ 32"
  shows "data_advance p L (word_of_int (L - 1)) = (dns_ok, p + (L - 1), 1)"
proof -
  have a: "uint (word_of_int L :: 32 word) = L"
    unfolding uint_word_of_int take_bit_eq_mod using assms by simp
  have b: "uint (word_of_int (L - 1) :: 32 word) = L - 1"
    unfolding uint_word_of_int take_bit_eq_mod using assms by simp
  have "\<not> (word_of_int L :: 32 word) < word_of_int (L - 1)"
    unfolding word_less_def a b by simp
  then show ?thesis
    unfolding data_advance_def Let_def b by simp
qed

lemma generic_rdata_error:
  assumes "generic_rdata msg rr r len out rt rc = Some res" and "r_err res \<noteq> dns_ok"
  shows "r_out res = out"
proof -
  from assms(1) obtain rdl where rdl: "ntohs_at msg (rr + 8) = Some rdl"
    by (auto simp: generic_rdata_def bind_eq_Some_conv)
  obtain e a b where da: "data_advance r len (ucast rdl) = (e, a, b)"
    by (cases "data_advance r len (ucast rdl)") auto
  show ?thesis
  proof (cases "e = dns_ok")
    case True
    with assms rdl da show ?thesis by (auto simp: generic_rdata_def)
  next
    case False
    with assms rdl da show ?thesis by (auto simp: generic_rdata_def)
  qed
qed

text \<open>The length the driver hands to the dispatcher is the 16-bit field of the record.\<close>

lemma dns_rr_parse_rdlength:
  assumes "dns_rr_parse msg rr data len rdlength = Some (dns_ok, rr', data', len', rdlength')"
  shows "0 \<le> rdlength' \<and> rdlength' \<le> 65535"
proof -
  from assms obtain rdl :: "16 word" where "rdlength' = uint rdl"
    by (auto simp: dns_rr_parse_def bind_eq_Some_conv split: if_splits)
  moreover have "uint rdl < 2 ^ 16" using uint_bounded [of rdl] by simp
  ultimately show ?thesis by simp
qed

text \<open>
  Claim C7. Whenever the payload dispatcher returns an error for a record, the output
  stream is as it was at the call: no fragment has been appended for that record. The
  length it is given is the driver's \<^verbatim>\<open>rdlength\<close>, a 16-bit value.
\<close>

theorem rdata_error_no_output:
  assumes run: "dns_rdata_print ntop6 name0 msg rr r len out = Some res"
    and err: "r_err res \<noteq> dns_ok" and len: "len \<le> 65535"
  shows "r_out res = out"
proof -
  from run obtain rclass rtype where rc: "ntohs_at msg (rr + 2) = Some rclass"
    and rt: "ntohs_at msg rr = Some rtype"
    by (auto simp: dns_rdata_print_def bind_eq_Some_conv)
  show ?thesis
  proof (cases "rclass = 1")
    case False
    with run rc rt have "generic_rdata msg rr r len out rtype rclass = Some res"
      by (simp add: dns_rdata_print_def)
    then show ?thesis using err by (rule generic_rdata_error)
  next
    case IN: True
    show ?thesis
    proof (cases "rtype = 1")
      case True
      with run rc rt IN err show ?thesis
        by (auto simp: dns_rdata_print_def dns_addr_parse_def bind_eq_Some_conv
            split: if_splits)
    next
      case nA: False
      show ?thesis
      proof (cases "rtype = 28")
        case True
        with run rc rt IN err show ?thesis
          by (auto simp: dns_rdata_print_def dns_ipv6_addr_parse_def bind_eq_Some_conv
              split: if_splits)
      next
        case nAAAA: False
        show ?thesis
        proof (cases "rtype = 6 \<or> rtype = 12 \<or> rtype = 5 \<or> rtype = 2 \<or> rtype = 15")
          case nm: True
          let ?dec = "if rtype = 15 then
                        dns_header_parse_mxname msg r len name0 0 (of_nat (DNS_OUTNAME_LEN - 1)) 0
                      else
                        dns_header_parse_name msg r len name0 0 (of_nat (DNS_OUTNAME_LEN - 1)) 0"
          have "?dec \<noteq> None"
          proof
            assume "?dec = None"
            with run rc rt IN nA nAAAA nm show False by (simp add: dns_rdata_print_def)
          qed
          then obtain nres where d: "?dec = Some nres" by auto
          then have "n_len nres \<le> len"
            by (auto split: if_splits dest: parse_name_len_le(1) parse_mxname_len_le(1))
          with len have le: "n_len nres \<le> 65535" by simp
          show ?thesis
          proof (cases "n_err nres \<noteq> dns_ok")
            case True
            with run rc rt IN nA nAAAA nm d show ?thesis
              by (auto simp: dns_rdata_print_def)
          next
            case ok: False
            show ?thesis
            proof (cases "n_len nres - 1 > 0")
              case True
              then have "data_advance (n_name nres) (n_len nres) (word_of_int (n_len nres - 1))
                           = (dns_ok, n_name nres + (n_len nres - 1), 1)"
                using le by (intro data_advance_rest) simp_all
              with run rc rt IN nA nAAAA nm d ok True err show ?thesis
                by (auto simp: dns_rdata_print_def bind_eq_Some_conv Let_def)
            next
              case False
              with run rc rt IN nA nAAAA nm d ok err show ?thesis
                by (auto simp: dns_rdata_print_def bind_eq_Some_conv Let_def)
            qed
          qed
        next
          case nn: False
          show ?thesis
          proof (cases "rtype = 16")
            case True
            with run rc rt IN nA nAAAA nn err show ?thesis
              by (auto simp: dns_rdata_print_def)
          next
            case False
            with run rc rt IN nA nAAAA nn
            have "generic_rdata msg rr r len out rtype rclass = Some res"
              by (simp add: dns_rdata_print_def)
            then show ?thesis using err by (rule generic_rdata_error)
          qed
        qed
      qed
    qed
  qed
qed

theorem rdata_error_no_output_witness:
  "dns_rdata_print (\<lambda>bs. []) [] [0, 1, 0, 1, 0, 0, 0, 60, 0, 6, 1, 2, 3, 4, 5, 6] 0 10 6 ''{''
     = Some \<lparr>r_err = dns_err_bad_rdlength, r_r = 10, r_len = 6, r_out = ''{''\<rparr>
   \<and> r_err \<lparr>r_err = dns_err_bad_rdlength, r_r = 10, r_len = 6, r_out = ''{''\<rparr> \<noteq> dns_ok
   \<and> (6 :: int) \<le> 65535
   \<and> r_out \<lparr>r_err = dns_err_bad_rdlength, r_r = 10, r_len = 6, r_out = ''{''\<rparr> = ''{''"
proof -
  have run: "dns_rdata_print (\<lambda>bs. []) [] [0, 1, 0, 1, 0, 0, 0, 60, 0, 6, 1, 2, 3, 4, 5, 6]
               0 10 6 ''{''
             = Some \<lparr>r_err = dns_err_bad_rdlength, r_r = 10, r_len = 6, r_out = ''{''\<rparr>"
    by code_simp
  have err: "r_err \<lparr>r_err = dns_err_bad_rdlength, r_r = 10, r_len = 6, r_out = ''{''\<rparr> \<noteq> dns_ok"
    by simp
  have len: "(6 :: int) \<le> 65535" by simp
  from rdata_error_no_output [OF run err len] run err len show ?thesis by blast
qed

subsection \<open>Pointer chains\<close>

text \<open>The length byte of a label, as the decoder reads it.\<close>

lemma label_byte_succ:
  assumes "n < 64"
  shows "unat (of_nat n + 1 :: byte) = n + 1" and "uint (of_nat n + 1 :: byte) = int n + 1"
proof -
  have "(of_nat n + 1 :: byte) = of_nat (n + 1)" by simp
  then show u: "unat (of_nat n + 1 :: byte) = n + 1"
    using assms by (simp only: unat_of_nat) simp
  have "uint (of_nat n + 1 :: byte) = int (unat (of_nat n + 1 :: byte))" by simp
  with u show "uint (of_nat n + 1 :: byte) = int n + 1" by simp
qed

lemma label_byte_val:
  assumes "n < 64"
  shows "char_val (of_nat n) = int n"
proof -
  have "sint (of_nat n :: byte) = signed_take_bit 7 (int n)"
    using signed_of_nat [where 'b = 8 and 'a = int, of n] by simp
  also have "\<dots> = int n"
    using assms by (intro signed_take_bit_int_eq_self) simp_all
  finally show ?thesis by (simp add: char_val_def)
qed

lemma label_byte_tag:
  assumes "n < 64"
  shows "char_is_label (of_nat n)"
proof -
  let ?x = "of_nat n :: byte"
  have "?x < 2 ^ 6"
    using assms by (simp add: word_less_nat_alt unat_of_nat)
  then have m: "?x AND mask 6 = ?x" by (rule less_mask_eq)
  have "?x AND 0xC0 = (?x AND mask 6) AND 0xC0" by (simp only: m)
  also have "\<dots> = ?x AND (mask 6 AND 0xC0)" by (simp only: and.assoc)
  also have "(mask 6 AND 0xC0 :: byte) = 0" by code_simp
  finally show ?thesis by (simp add: char_is_label_def)
qed

text \<open>One jump, and \<open>n\<close> jumps, lead to the decoding of the name behind them.\<close>

lemma offset_not_label: "char_is_offset ch \<Longrightarrow> \<not> char_is_label ch"
  by (auto simp: char_is_offset_def char_is_label_def)

lemma pointer_atD:
  assumes "pointer_at msg p"
  obtains ch v where "rd msg p = Some ch" and "char_is_offset ch" and "ntohs_at msg p = Some v"
    and "pointer_target msg p = uint (v AND 0x3FFF)"
  using assms
  by (auto simp: pointer_at_def pointer_target_def ntohs_at_def split: option.splits)

lemma parse_name_entry:
  assumes "0 < len" and "2 \<le> ol" and "outname + 1 < length buf"
  shows "dns_header_parse_name msg name len buf outname ol d =
           name_loop msg name name len (buf[outname + 1 := 0]) outname ol (outname + unat ol)
             (name + len) d"
proof -
  from assms(2) have "\<not> ol < 2" by (simp add: not_less)
  with assms show ?thesis
    by (subst dns_header_parse_name.simps) (simp add: wr_def)
qed

lemma parse_name_jump:
  assumes p: "pointer_at msg p" and e: "p + 2 \<le> e" and ol: "2 \<le> ol"
    and buf: "outname + 1 < length buf" and d: "d < DNS_MAX_RECURSION_DEPTH"
  shows "dns_header_parse_name msg p (e - p) buf outname ol d =
           map_option (\<lambda>r. r\<lparr>n_name := p + 2, n_len := e - p - 2\<rparr>)
             (dns_header_parse_name msg (pointer_target msg p) (e - pointer_target msg p)
                (buf[outname + 1 := 0]) outname ol (d + 1))"
proof -
  from p obtain ch v where ch: "rd msg p = Some ch" and off: "char_is_offset ch"
    and v: "ntohs_at msg p = Some v" and t: "pointer_target msg p = uint (v AND 0x3FFF)"
    by (rule pointer_atD)
  from ol have pos: "outname < outname + unat ol" by (simp add: word_le_nat_alt)
  from e have len: "0 < e - p" "\<not> e - p < 2" by simp_all
  from d have nd: "\<not> DNS_MAX_RECURSION_DEPTH \<le> d" by simp
  have "dns_header_parse_name msg p (e - p) buf outname ol d =
          name_loop msg p p (e - p) (buf[outname + 1 := 0]) outname ol (outname + unat ol)
            (p + (e - p)) d"
    using len(1) ol buf by (rule parse_name_entry)
  also have "\<dots> = do { v \<leftarrow> ntohs_at msg p;
                       res \<leftarrow> dns_header_parse_name msg (uint (v AND 0x3FFF))
                                (p + (e - p) - uint (v AND 0x3FFF)) (buf[outname + 1 := 0])
                                outname ol (d + 1);
                       Some (res\<lparr>n_name := p + 2, n_len := e - p - 2\<rparr>) }"
    using len(1) pos ch offset_not_label [OF off] off len(2) nd by (rule name_loop_offset_jump)
  also have "\<dots> = map_option (\<lambda>r. r\<lparr>n_name := p + 2, n_len := e - p - 2\<rparr>)
             (dns_header_parse_name msg (pointer_target msg p) (e - pointer_target msg p)
                (buf[outname + 1 := 0]) outname ol (d + 1))"
    by (cases "dns_header_parse_name msg (pointer_target msg p) (e - pointer_target msg p)
                (buf[outname + 1 := 0]) outname ol (d + 1)") (simp_all add: v t)
  finally show ?thesis .
qed

lemma parse_name_chain:
  assumes "pointer_chain msg e (Suc n) p q" and "d + Suc n \<le> DNS_MAX_RECURSION_DEPTH"
    and "2 \<le> ol" and "outname + 1 < length buf"
  shows "dns_header_parse_name msg p (e - p) buf outname ol d =
           map_option (\<lambda>r. r\<lparr>n_name := p + 2, n_len := e - p - 2\<rparr>)
             (dns_header_parse_name msg q (e - q) (buf[outname + 1 := 0]) outname ol
                (d + Suc n))"
  using assms
proof (induction n arbitrary: p d buf)
  case 0
  then show ?case using parse_name_jump [of msg p e ol outname buf d] by simp
next
  case (Suc n)
  let ?t = "pointer_target msg p"
  let ?buf = "buf[outname + 1 := 0]"
  from Suc.prems(1) have p: "pointer_at msg p" and e: "p + 2 \<le> e"
    and rest: "pointer_chain msg e (Suc n) ?t q" by simp_all
  from Suc.prems(2) have d: "d < DNS_MAX_RECURSION_DEPTH" by simp
  have step: "dns_header_parse_name msg p (e - p) buf outname ol d =
           map_option (\<lambda>r. r\<lparr>n_name := p + 2, n_len := e - p - 2\<rparr>)
             (dns_header_parse_name msg ?t (e - ?t) ?buf outname ol (d + 1))"
    using p e Suc.prems(3,4) d by (rule parse_name_jump)
  have "dns_header_parse_name msg ?t (e - ?t) ?buf outname ol (d + 1) =
           map_option (\<lambda>r. r\<lparr>n_name := ?t + 2, n_len := e - ?t - 2\<rparr>)
             (dns_header_parse_name msg q (e - q) (?buf[outname + 1 := 0]) outname ol
                (d + 1 + Suc n))"
    using rest Suc.prems(2,3,4) by (intro Suc.IH) simp_all
  with step show ?case
    by (simp add: option.map_comp comp_def)
qed

text \<open>A name in wire form is decoded to its end, at any depth.\<close>

lemma encode_name_Nil: "encode_name [] = [0]"
  by (simp add: encode_name_def)

lemma encode_name_Cons: "encode_name (l # ls) = of_nat (length l) # l @ encode_name ls"
  by (simp add: encode_name_def)

lemma rd_drop:
  assumes "0 \<le> c" and "drop (nat c) msg = xs @ rest" and "i < length xs"
  shows "rd msg (c + int i) = Some (xs ! i)"
proof -
  from assms(2) have len: "length msg - nat c = length xs + length rest"
    by (metis length_append length_drop)
  with assms(3) have lt: "nat c + i < length msg" by simp
  have "msg ! (nat c + i) = drop (nat c) msg ! i"
    using lt by simp
  also have "\<dots> = xs ! i" using assms(2,3) by (simp add: nth_append)
  finally have "msg ! (nat c + i) = xs ! i" .
  moreover have "nat (c + int i) = nat c + i" using assms(1) by (simp add: nat_add_distrib)
  ultimately show ?thesis using assms(1) lt by (simp add: rd_def)
qed

lemma name_loop_labels:
  assumes "list_all (\<lambda>l. 0 < length l \<and> length l < 64) ls"
    and "0 \<le> c"
    and "drop (nat c) msg = encode_name ls @ rest"
    and "int (length (encode_name ls)) \<le> len"
    and "outname + length (encode_name ls) \<le> terminus"
    and "terminus \<le> length buf"
  shows "\<exists>buf'. name_loop msg c name len buf outname ol terminus offsetlen d =
           Some \<lparr>n_err = dns_ok, n_name = c + int (length (encode_name ls)),
                 n_len = len - int (length (encode_name ls)) + 1, n_buf = buf',
                 n_outname = outname + length (encode_name ls) - 1\<rparr>"
  using assms
proof (induction ls arbitrary: c name len buf outname ol)
  case Nil
  from Nil.prems(2,3) have ch: "rd msg c = Some 0"
    using rd_drop [of c msg "[0]" rest 0] by (simp add: encode_name_Nil)
  from Nil.prems(4,5,6) have run: "0 < len" "outname < terminus" "outname < length buf"
    by (simp_all add: encode_name_Nil)
  have "name_loop msg c name len buf outname ol terminus offsetlen d =
          do { buf' \<leftarrow> wr buf outname 0;
               Some \<lparr>n_err = dns_ok, n_name = c + 1, n_len = len, n_buf = buf',
                     n_outname = outname\<rparr> }"
    using run(1,2) ch by (rule name_loop_null) (simp_all add: char_is_label_def char_val_def run)
  with run(3) show ?case by (simp add: wr_def encode_name_Nil)
next
  case (Cons l ls)
  let ?n = "length l"
  let ?ch = "of_nat ?n :: byte"
  let ?e = "length (encode_name ls)"
  from Cons.prems(1) have n: "0 < ?n" "?n < 64" and rest: "list_all (\<lambda>l. 0 < length l \<and> length l < 64) ls"
    by simp_all
  have enc: "encode_name (l # ls) = ?ch # l @ encode_name ls" by (rule encode_name_Cons)
  have elen: "length (encode_name (l # ls)) = ?n + 1 + ?e" by (simp add: enc)
  have epos: "0 < ?e" by (simp add: encode_name_def)
  from Cons.prems(2,3) have ch: "rd msg c = Some ?ch"
    using rd_drop [of c msg "encode_name (l # ls)" rest 0] by (simp add: enc)
  from Cons.prems(4,5,6) elen epos have run: "0 < len" "outname < terminus"
    and w: "wr buf outname 0x2E = Some (buf[outname := 0x2E])"
    by (simp_all add: wr_def)
  have lab: "char_is_label ?ch" using n(2) by (rule label_byte_tag)
  have val: "char_val ?ch = int ?n" using n(2) by (rule label_byte_val)
  have f1: "char_val ?ch < 64" using val n(2) by simp
  have f2: "char_val ?ch < len" using val Cons.prems(4) elen by simp
  have nz: "char_val ?ch \<noteq> 0" using val n(1) by simp
  have j: "unat (?ch + 1) = ?n + 1" "uint (?ch + 1) = int ?n + 1"
    using n(2) by (rule label_byte_succ)+
  from Cons.prems(3) have mlen: "length msg - nat c = length (encode_name (l # ls)) + length rest"
    by (metis length_append length_drop)
  have ml: "nat c + (?n + 1) \<le> length msg" using mlen elen by arith
  have bl: "outname + 1 + (?n + 1 - 1) \<le> length (buf[outname := 0x2E])"
    using Cons.prems(5,6) elen by simp
  from copy_label_Some [OF Cons.prems(2) ml bl]
  obtain buf2 where cp: "copy_label msg c 1 (?n + 1) (buf[outname := 0x2E]) (outname + 1)
                           = Some (buf2, outname + 1 + ?n)"
    and l2: "length buf2 = length buf"
    by auto
  have step: "name_loop msg c name len buf outname ol terminus offsetlen d =
          name_loop msg (c + (int ?n + 1)) (name + (int ?n + 1)) (len - (int ?n + 1)) buf2
            (outname + 1 + ?n) (ol - ucast (?ch + 1)) terminus offsetlen d"
    using cp by (simp add: name_loop_label [OF run ch lab f1 f2 nz] w j)
  have d': "drop (nat (c + (int ?n + 1))) msg = encode_name ls @ rest"
  proof -
    have "nat (c + (int ?n + 1)) = (?n + 1) + nat c"
      using Cons.prems(2) by (simp add: nat_add_distrib)
    then have "drop (nat (c + (int ?n + 1))) msg = drop (?n + 1) (drop (nat c) msg)"
      by (simp only: drop_drop)
    also have "\<dots> = encode_name ls @ rest"
      by (simp add: Cons.prems(3) enc)
    finally show ?thesis .
  qed
  have "\<exists>buf'. name_loop msg (c + (int ?n + 1)) (name + (int ?n + 1)) (len - (int ?n + 1)) buf2
            (outname + 1 + ?n) (ol - ucast (?ch + 1)) terminus offsetlen d =
           Some \<lparr>n_err = dns_ok, n_name = c + (int ?n + 1) + int ?e,
                 n_len = len - (int ?n + 1) - int ?e + 1, n_buf = buf',
                 n_outname = outname + 1 + ?n + ?e - 1\<rparr>"
    using rest Cons.prems(2,4,5,6) d' elen l2 by (intro Cons.IH) simp_all
  then show ?case
    by (simp add: step elen algebra_simps)
qed

lemma parse_name_wf:
  assumes wf: "wf_name_at msg q e ls" and buf: "length buf = DNS_OUTNAME_LEN"
  shows "map_option (\<lambda>r. (n_err r, n_name r, n_len r, n_outname r))
           (dns_header_parse_name msg q (e - q) buf 0 (of_nat (DNS_OUTNAME_LEN - 1)) d)
         = Some (dns_ok, q + int (length (encode_name ls)),
                 e - q - int (length (encode_name ls)) + 1, length (encode_name ls) - 1)"
proof -
  let ?k = "length (encode_name ls)"
  let ?ol = "of_nat (DNS_OUTNAME_LEN - 1) :: 32 word"
  have kpos: "0 < ?k" by (simp add: encode_name_def)
  from wf have q: "0 \<le> q" and ls: "list_all (\<lambda>l. 0 < length l \<and> length l < 64) ls"
    and tk: "take ?k (drop (nat q) msg) = encode_name ls"
    and e: "q + int ?k \<le> e" and cap: "?k < DNS_OUTNAME_LEN"
    by (simp_all add: wf_name_at_def)
  have dr: "drop (nat q) msg = encode_name ls @ drop ?k (drop (nat q) msg)"
    using append_take_drop_id [of ?k "drop (nat q) msg"] tk by simp
  have ol: "unat ?ol = 255" "2 \<le> ?ol" by (simp_all add: DNS_OUTNAME_LEN_def)
  have len: "0 < e - q" using e kpos by linarith
  have entry: "dns_header_parse_name msg q (e - q) buf 0 ?ol d =
          name_loop msg q q (e - q) (buf[0 + 1 := 0]) 0 ?ol (0 + unat ?ol) (q + (e - q)) d"
    using len ol(2) buf by (intro parse_name_entry) (simp_all add: DNS_OUTNAME_LEN_def)
  have "\<exists>buf'. name_loop msg q q (e - q) (buf[0 + 1 := 0]) 0 ?ol (0 + unat ?ol) (q + (e - q)) d =
           Some \<lparr>n_err = dns_ok, n_name = q + int ?k, n_len = (e - q) - int ?k + 1,
                 n_buf = buf', n_outname = 0 + ?k - 1\<rparr>"
    using ls q dr e cap buf
    by (intro name_loop_labels) (simp_all add: ol DNS_OUTNAME_LEN_def)
  with entry show ?thesis by auto
qed

lemma parse_name_too_deep:
  assumes p: "pointer_at msg p" and e: "p + 2 \<le> e" and ol: "2 \<le> ol"
    and buf: "outname + 1 < length buf" and d: "DNS_MAX_RECURSION_DEPTH \<le> d"
  shows "dns_header_parse_name msg p (e - p) buf outname ol d =
           Some \<lparr>n_err = dns_err_offset_too_long, n_name = p + 2, n_len = e - p - 2,
                 n_buf = buf[outname + 1 := 0], n_outname = outname\<rparr>"
proof -
  from p obtain ch v where ch: "rd msg p = Some ch" and off: "char_is_offset ch"
    and v: "ntohs_at msg p = Some v"
    by (rule pointer_atD)
  from ol have pos: "outname < outname + unat ol" by (simp add: word_le_nat_alt)
  from e have len: "0 < e - p" "\<not> e - p < 2" by simp_all
  have "dns_header_parse_name msg p (e - p) buf outname ol d =
          name_loop msg p p (e - p) (buf[outname + 1 := 0]) outname ol (outname + unat ol)
            (p + (e - p)) d"
    using len(1) ol buf by (rule parse_name_entry)
  also have "\<dots> = do { v \<leftarrow> ntohs_at msg p;
                       Some \<lparr>n_err = dns_err_offset_too_long, n_name = p + 2, n_len = e - p - 2,
                             n_buf = buf[outname + 1 := 0], n_outname = outname\<rparr> }"
    using len(1) pos ch offset_not_label [OF off] off len(2) d by (rule name_loop_offset_deep)
  finally show ?thesis by (simp add: v)
qed

lemma pointer_chain_last:
  "pointer_chain msg e (Suc n) p q \<Longrightarrow>
   \<exists>p'. pointer_chain msg e n p p' \<and> pointer_at msg p' \<and> p' + 2 \<le> e
        \<and> pointer_target msg p' = q"
proof (induction n arbitrary: p)
  case 0
  then show ?case by simp
next
  case (Suc n)
  from Suc.prems have p: "pointer_at msg p" "p + 2 \<le> e"
    and rest: "pointer_chain msg e (Suc n) (pointer_target msg p) q" by simp_all
  from Suc.IH [OF rest] obtain p' where
    "pointer_chain msg e n (pointer_target msg p) p'" "pointer_at msg p'" "p' + 2 \<le> e"
    "pointer_target msg p' = q" by blast
  with p show ?case by auto
qed

text \<open>
  Claim C2. Name decoding terminates on every input: the decoders are total functions,
  by the termination proofs above (a jump is made only below depth 20, and a pass
  through a loop moves \<^verbatim>\<open>outname\<close> towards \<^verbatim>\<open>terminus\<close>). Started at depth 0 on a chain
  of exactly 20 pointers that ends in a well-formed name, the decoder returns
  \<^verbatim>\<open>dns_ok\<close> with the name's bytes appended and the cursor behind the first pointer;
  on a chain of 21 pointers (a cycle is one) it returns \<^verbatim>\<open>dns_err_offset_too_long\<close>.
\<close>

theorem pointer_chain_depth:
  assumes buf: "length buf = DNS_OUTNAME_LEN"
    and c20: "pointer_chain msg e 20 p q" and wf: "wf_name_at msg q e ls"
    and c21: "pointer_chain msg' e' 21 p' q'"
  shows "map_option (\<lambda>r. (n_err r, n_name r, n_len r, n_outname r))
           (dns_header_parse_name msg p (e - p) buf 0 (of_nat (DNS_OUTNAME_LEN - 1)) 0)
         = Some (dns_ok, p + 2, e - p - 2, length (encode_name ls) - 1)
       \<and> map_option (\<lambda>r. (n_err r, n_name r, n_len r, n_outname r))
           (dns_header_parse_name msg' p' (e' - p') buf 0 (of_nat (DNS_OUTNAME_LEN - 1)) 0)
         = Some (dns_err_offset_too_long, p' + 2, e' - p' - 2, 0)"
proof
  let ?ol = "of_nat (DNS_OUTNAME_LEN - 1) :: 32 word"
  have ol: "2 \<le> ?ol" by (simp add: DNS_OUTNAME_LEN_def)
  have b1: "0 + 1 < length buf" using buf by (simp add: DNS_OUTNAME_LEN_def)
  have b2: "length (buf[0 + 1 := 0]) = DNS_OUTNAME_LEN" using buf by simp
  have twenty: "(20 :: nat) = Suc 19" by simp
  have "dns_header_parse_name msg p (e - p) buf 0 ?ol 0 =
          map_option (\<lambda>r. r\<lparr>n_name := p + 2, n_len := e - p - 2\<rparr>)
            (dns_header_parse_name msg q (e - q) (buf[0 + 1 := 0]) 0 ?ol (0 + Suc 19))"
    using c20 ol b1 unfolding twenty
    by (intro parse_name_chain) (simp_all add: DNS_MAX_RECURSION_DEPTH_def)
  then show "map_option (\<lambda>r. (n_err r, n_name r, n_len r, n_outname r))
           (dns_header_parse_name msg p (e - p) buf 0 ?ol 0)
         = Some (dns_ok, p + 2, e - p - 2, length (encode_name ls) - 1)"
    using parse_name_wf [OF wf b2, of "0 + Suc 19"]
    by (auto simp: option.map_comp comp_def)
next
  let ?ol = "of_nat (DNS_OUTNAME_LEN - 1) :: 32 word"
  have ol: "2 \<le> ?ol" by (simp add: DNS_OUTNAME_LEN_def)
  have b1: "0 + 1 < length buf" using buf by (simp add: DNS_OUTNAME_LEN_def)
  have b2: "0 + 1 < length (buf[0 + 1 := 0])" using buf by (simp add: DNS_OUTNAME_LEN_def)
  have n21: "(21 :: nat) = Suc (Suc 19)" by simp
  from c21 obtain t where c: "pointer_chain msg' e' (Suc 19) p' t" and pt: "pointer_at msg' t"
    and et: "t + 2 \<le> e'"
    unfolding n21 using pointer_chain_last [of msg' e' "Suc 19" p' q'] by blast
  have "dns_header_parse_name msg' p' (e' - p') buf 0 ?ol 0 =
          map_option (\<lambda>r. r\<lparr>n_name := p' + 2, n_len := e' - p' - 2\<rparr>)
            (dns_header_parse_name msg' t (e' - t) (buf[0 + 1 := 0]) 0 ?ol (0 + Suc 19))"
    using c ol b1 by (intro parse_name_chain) (simp_all add: DNS_MAX_RECURSION_DEPTH_def)
  moreover have "dns_header_parse_name msg' t (e' - t) (buf[0 + 1 := 0]) 0 ?ol (0 + Suc 19) =
           Some \<lparr>n_err = dns_err_offset_too_long, n_name = t + 2, n_len = e' - t - 2,
                 n_buf = buf[0 + 1 := 0, 0 + 1 := 0], n_outname = 0\<rparr>"
    using pt et ol b2 by (intro parse_name_too_deep) (simp_all add: DNS_MAX_RECURSION_DEPTH_def)
  ultimately show "map_option (\<lambda>r. (n_err r, n_name r, n_len r, n_outname r))
           (dns_header_parse_name msg' p' (e' - p') buf 0 ?ol 0)
         = Some (dns_err_offset_too_long, p' + 2, e' - p' - 2, 0)"
    by simp
qed

theorem pointer_chain_depth_witness:
  "length (replicate 256 (0 :: byte)) = DNS_OUTNAME_LEN
   \<and> pointer_chain
        [0,0,0,0, 0,0, 0,0, 0,0, 0,0,
         0xC0,14, 0xC0,16, 0xC0,18, 0xC0,20, 0xC0,22, 0xC0,24, 0xC0,26, 0xC0,28, 0xC0,30, 0xC0,32,
         0xC0,34, 0xC0,36, 0xC0,38, 0xC0,40, 0xC0,42, 0xC0,44, 0xC0,46, 0xC0,48, 0xC0,50, 0xC0,52,
         1,0x61, 0] 55 20 12 52
   \<and> wf_name_at
        [0,0,0,0, 0,0, 0,0, 0,0, 0,0,
         0xC0,14, 0xC0,16, 0xC0,18, 0xC0,20, 0xC0,22, 0xC0,24, 0xC0,26, 0xC0,28, 0xC0,30, 0xC0,32,
         0xC0,34, 0xC0,36, 0xC0,38, 0xC0,40, 0xC0,42, 0xC0,44, 0xC0,46, 0xC0,48, 0xC0,50, 0xC0,52,
         1,0x61, 0] 52 55 [[0x61]]
   \<and> pointer_chain [0,0,0,0, 0,0, 0,0, 0,0, 0,0, 0xC0,12] 14 21 12 12
   \<and> map_option (\<lambda>r. (n_err r, n_name r, n_len r, n_outname r))
        (dns_header_parse_name
           [0,0,0,0, 0,0, 0,0, 0,0, 0,0,
            0xC0,14, 0xC0,16, 0xC0,18, 0xC0,20, 0xC0,22, 0xC0,24, 0xC0,26, 0xC0,28, 0xC0,30, 0xC0,32,
            0xC0,34, 0xC0,36, 0xC0,38, 0xC0,40, 0xC0,42, 0xC0,44, 0xC0,46, 0xC0,48, 0xC0,50, 0xC0,52,
            1,0x61, 0] 12 (55 - 12) (replicate 256 0) 0 (of_nat (DNS_OUTNAME_LEN - 1)) 0)
       = Some (dns_ok, 12 + 2, 55 - 12 - 2, length (encode_name [[0x61]]) - 1)
   \<and> map_option (\<lambda>r. (n_err r, n_name r, n_len r, n_outname r))
        (dns_header_parse_name [0,0,0,0, 0,0, 0,0, 0,0, 0,0, 0xC0,12] 12 (14 - 12)
           (replicate 256 0) 0 (of_nat (DNS_OUTNAME_LEN - 1)) 0)
       = Some (dns_err_offset_too_long, 12 + 2, 14 - 12 - 2, 0)"
proof -
  have h1: "length (replicate 256 (0 :: byte)) = DNS_OUTNAME_LEN"
    by (simp add: DNS_OUTNAME_LEN_def)
  have h2: "pointer_chain
        [0,0,0,0, 0,0, 0,0, 0,0, 0,0,
         0xC0,14, 0xC0,16, 0xC0,18, 0xC0,20, 0xC0,22, 0xC0,24, 0xC0,26, 0xC0,28, 0xC0,30, 0xC0,32,
         0xC0,34, 0xC0,36, 0xC0,38, 0xC0,40, 0xC0,42, 0xC0,44, 0xC0,46, 0xC0,48, 0xC0,50, 0xC0,52,
         1,0x61, 0] 55 20 12 52"
    by code_simp
  have h3: "wf_name_at
        [0,0,0,0, 0,0, 0,0, 0,0, 0,0,
         0xC0,14, 0xC0,16, 0xC0,18, 0xC0,20, 0xC0,22, 0xC0,24, 0xC0,26, 0xC0,28, 0xC0,30, 0xC0,32,
         0xC0,34, 0xC0,36, 0xC0,38, 0xC0,40, 0xC0,42, 0xC0,44, 0xC0,46, 0xC0,48, 0xC0,50, 0xC0,52,
         1,0x61, 0] 52 55 [[0x61]]"
    by code_simp
  have h4: "pointer_chain [0,0,0,0, 0,0, 0,0, 0,0, 0,0, 0xC0,12] 14 21 12 12"
    by code_simp
  from pointer_chain_depth [OF h1 h2 h3 h4] h1 h2 h3 h4 show ?thesis by blast
qed

subsection \<open>Inputs on which the code leaves its specification\<close>

text \<open>
  Claim C1 (the decoder never appends more than the output budget). The loop tests
  \<^verbatim>\<open>outname < terminus\<close> before a label and never the label's length against the room
  left. With the driver's arguments (an array of 256 bytes, a budget of 255) a name of
  four labels of 63 bytes has 256 bytes appended, the last at index 255, before
  \<^verbatim>\<open>dns_err_unterminated\<close> is returned; with labels of 63, 63, 63, 61 and 63 bytes the
  fifth label starts at index 254 and is stored past the end of the array.
\<close>

theorem name_decoder_overruns_output:
  "map_option (\<lambda>r. (n_err r, n_outname r, n_buf r ! 255))
     (dns_header_parse_name
        (replicate 12 0 @ 63 # replicate 63 0x61 @ 63 # replicate 63 0x61
           @ 63 # replicate 63 0x61 @ 63 # replicate 63 0x61 @ [0])
        12 257 (replicate DNS_OUTNAME_LEN 0) 0 (of_nat (DNS_OUTNAME_LEN - 1)) 0)
     = Some (dns_err_unterminated, 256, 0x61)
   \<and> dns_header_parse_name
        (replicate 12 0 @ 63 # replicate 63 0x61 @ 63 # replicate 63 0x61
           @ 63 # replicate 63 0x61 @ 61 # replicate 61 0x61 @ 63 # replicate 63 0x61 @ [0])
        12 319 (replicate DNS_OUTNAME_LEN 0) 0 (of_nat (DNS_OUTNAME_LEN - 1)) 0
     = None"
  by code_simp

text \<open>
  Claim C3 (the remaining length never goes negative, no read beyond it, in
  particular at the preference skip). The skip \<^verbatim>\<open>c += 2; *len -= 2\<close> has no check: on an
  MX payload of one byte the length becomes -1 and the byte two places on is read. In
  the driver \<^verbatim>\<open>len -= rdlength\<close> goes below zero as well, for a TXT record whose declared
  rdlength passed the check of \<^verbatim>\<open>dns_rr_parse\<close> against the length before the header:
  the second record then prints a negative count.
\<close>

theorem mx_skip_negative_length:
  \<open>map_option (\<lambda>r. (n_err r, n_name r, n_len r))
     (dns_header_parse_mxname
        [0,0,0x80,0, 0,0, 0,1, 0,0, 0,0,  0,  0,15, 0,1, 0,0,0,60, 0,1,  0,  0,0]
        23 1 (replicate DNS_OUTNAME_LEN 0) 0 (of_nat (DNS_OUTNAME_LEN - 1)) 0)
     = Some (dns_err_label_too_long, 23, - 1)
   \<and> dns_print_packet (\<lambda>bs. []) (replicate DNS_OUTNAME_LEN 0)
        [0,0,0x80,0, 0,0, 0,2, 0,0, 0,0,  0,  0,16, 0,1, 0,0,0,60, 0,11]
     = Some ''{"rc":0,"rr":[{"txt":"NYI","ttl":60},{"malformed":-10''\<close>
  by code_simp

text \<open>
  Claim C4 (after a record the cursor is at the end of its rdlength region). The
  driver adds \<^verbatim>\<open>rdlength - 1\<close> to the cursor, which is right after a name that ended in a
  terminator and one short for a TXT record, which consumed nothing: the record at
  offset 12 below has its payload at 23..25 and the cursor is left at 25, not 26, so
  the A record behind it is not decoded. With the unknown type 99 in place of TXT the
  generic case advances by rdlength and both records are decoded.
\<close>

theorem txt_record_cursor_short:
  \<open>map_option (\<lambda>(stop, s). (stop, p_r s))
     (rr_body (\<lambda>bs. []) (replicate DNS_OUTNAME_LEN 0)
        [0,0,0x80,0, 0,0, 0,2, 0,0, 0,0,  0,  0,16, 0,1, 0,0,0,60, 0,3,  2,0x68,0x69,
         0,  0,1, 0,1, 0,0,0,60, 0,4,  10,1,2,3]
        \<lparr>p_r = 12, p_len = 29, p_rdlength = 0, p_rr = 0, p_comma = 0,
         p_name = replicate DNS_OUTNAME_LEN 0, p_out = []\<rparr>)
     = Some (False, 25)
   \<and> dns_print_packet (\<lambda>bs. []) (replicate DNS_OUTNAME_LEN 0)
        [0,0,0x80,0, 0,0, 0,2, 0,0, 0,0,  0,  0,16, 0,1, 0,0,0,60, 0,3,  2,0x68,0x69,
         0,  0,1, 0,1, 0,0,0,60, 0,4,  10,1,2,3]
     = Some ''{"rc":0,"rr":[{"txt":"NYI","ttl":60},{"malformed":16''
   \<and> dns_print_packet (\<lambda>bs. []) (replicate DNS_OUTNAME_LEN 0)
        [0,0,0x80,0, 0,0, 0,2, 0,0, 0,0,  0,  0,99, 0,1, 0,0,0,60, 0,3,  2,0x68,0x69,
         0,  0,1, 0,1, 0,0,0,60, 0,4,  10,1,2,3]
     = Some ''{"rc":0,"rr":[{"type":"63","class":"1","rdlength":3,"ttl":60},{"a":"10.1.2.3","ttl":60}]}''\<close>
  by code_simp

text \<open>
  Claim C5 (the preference is skipped once, by the outermost call, before the first
  tag is read). The first byte of the payload is tested as a tag before the skip, and
  the flag is a local that every call resets. In the first message the MX payload is
  the preference 0xC00C and a pointer to the name a.b at offset 12: the preference
  itself is followed as a pointer, the call at the target skips two bytes of the
  name, and the record is printed with the exchange b. In the last message the
  payload is the preference 10 and the same pointer: after the skip the pointer byte
  0xC0 is compared as a label length, and 192 bytes are copied from behind it.
\<close>

theorem mx_preference_misparsed:
  \<open>map_option (\<lambda>r. (n_err r, n_name r, n_len r, c_str (n_buf r) 1))
     (dns_header_parse_mxname
        [0,0,0x80,0, 0,1, 0,1, 0,0, 0,0,  1,0x61,1,0x62,0,  0,15, 0,1,
         0xC0,12,  0,15, 0,1, 0,0,0,60, 0,4,  0xC0,12, 0xC0,12]
        33 4 (replicate DNS_OUTNAME_LEN 0) 0 (of_nat (DNS_OUTNAME_LEN - 1)) 0)
     = Some (dns_ok, 35, 2, Some ''b'')
   \<and> dns_print_packet (\<lambda>bs. []) (replicate DNS_OUTNAME_LEN 0)
        [0,0,0x80,0, 0,1, 0,1, 0,0, 0,0,  1,0x61,1,0x62,0,  0,15, 0,1,
         0xC0,12,  0,15, 0,1, 0,0,0,60, 0,4,  0xC0,12, 0xC0,12]
     = Some ''{"rn":"a.b","rc":0,"rr":[{"mx":"b","ttl":60}]}''
   \<and> dns_print_packet (\<lambda>bs. []) (replicate DNS_OUTNAME_LEN 0)
        [0,0,0x80,0, 0,1, 0,1, 0,0, 0,0,  1,0x61,1,0x62,0,  0,15, 0,1,
         0xC0,12,  0,15, 0,1, 0,0,0,60, 0,4,  0,10, 0xC0,12]
     = None\<close>
  by code_simp

text \<open>
  Claim C6 (the output is always well-formed). On an input shorter than a header,
  the empty one included, the opening brace is never closed.
\<close>

theorem truncated_header_output_unclosed:
  \<open>dns_print_packet ntop6 name0 [] = Some ''{"malformed":0''
   \<and> count_list ''{"malformed":0'' CHR ''}'' = 0\<close>
  by (simp add: dns_print_packet_def malformed_def printf_d_def dec.simps digit_def)

text \<open>
  Claim C8 (\<^verbatim>\<open>dns_err_rdata_too_long\<close> exactly when rdlength exceeds what remains behind
  the fixed fields). The comparison is made with the length before the ten bytes of
  the fixed fields are taken off: a header that ends the message and declares five
  bytes of payload is accepted. In the message below the name is a pointer to the
  zero byte at offset 5, the A record declares four bytes and none follows: the
  address is read from behind the message.
\<close>

theorem rr_parse_accepts_rdata_past_end:
  \<open>dns_rr_parse [0,1, 0,1, 0,0,0,60, 0,5] 0 0 10 0 = Some (dns_ok, 0, 10, 0, 5)
   \<and> dns_print_packet (\<lambda>bs. []) (replicate DNS_OUTNAME_LEN 0)
        [0,0,0x80,0, 0,0, 0,1, 0,0, 0,0,  0xC0,5,  0,1, 0,1, 0,0,0,60, 0,4]
     = None\<close>
  by code_simp

end
